theory Spec2Isabelle
  imports Complex_Main
begin

section \<open>PPO trainer (script/utils/ppo\_trainer\_with\_peft.py): shallow embedding\<close>

text \<open>
  Tensors are modelled by nested lists: a tensor of shape \<open>[B, T]\<close> is the list of its
  \<open>B\<close> rows, a tensor of shape \<open>[T]\<close> a plain list. Floating-point entries are
  modelled by real numbers, integer (mask, token id) entries by \<open>int\<close>. Every place
  where Python or torch raises is a branch returning \<open>Inl\<close>.
\<close>

subsection \<open>Errors and the basic tensor operations\<close>

datatype exn = IndexError | RuntimeError | KeyError | ZeroDivisionError | ForwardError

definition bindE :: "exn + 'a \<Rightarrow> ('a \<Rightarrow> exn + 'b) \<Rightarrow> exn + 'b" where
  "bindE m f = (case m of Inl e \<Rightarrow> Inl e | Inr x \<Rightarrow> f x)"

text \<open>A \<open>for\<close> loop that builds a list and stops at the first exception.\<close>

fun mapE :: "('a \<Rightarrow> exn + 'b) \<Rightarrow> 'a list \<Rightarrow> exn + 'b list" where
  "mapE f [] = Inr []"
| "mapE f (x # xs) =
     (case f x of
        Inl e \<Rightarrow> Inl e
      | Inr y \<Rightarrow> (case mapE f xs of Inl e \<Rightarrow> Inl e | Inr ys \<Rightarrow> Inr (y # ys)))"

text \<open>\<open>xs[i]\<close> for an index that is never negative (a \<open>range\<close> counter, a \<open>nonzero\<close> index).\<close>

definition idx :: "'a list \<Rightarrow> nat \<Rightarrow> exn + 'a" where
  "idx xs i = (if i < length xs then Inr (xs ! i) else Inl IndexError)"

text \<open>
  \<open>torch.stack\<close> raises on an empty list and on tensors of different sizes.
\<close>

definition same_len :: "'a list list \<Rightarrow> bool" where
  "same_len xs = list_all (\<lambda>r. length r = length (hd xs)) xs"

definition torch_stack :: "'a list list \<Rightarrow> exn + 'a list list" where
  "torch_stack xs = (if xs = [] \<or> \<not> same_len xs then Inl RuntimeError else Inr xs)"

subsection \<open>get\_responses\_mask\<close>

text \<open>
  \<^verbatim>\<open>response_mask = torch.zeros_like(sequences_mask[i])\<close>, then
  \<^verbatim>\<open>response_mask[len(prompt):] = sequences_mask[i][len(prompt):]\<close>.
\<close>

definition response_mask_row :: "int list \<Rightarrow> int list \<Rightarrow> int list" where
  "response_mask_row seq_mask prompt =
     take (length prompt) (replicate (length seq_mask) 0) @ drop (length prompt) seq_mask"

definition get_responses_mask :: "int list list \<Rightarrow> int list list \<Rightarrow> exn + int list list" where
  "get_responses_mask sequences_mask prompts_without_padding =
     bindE (mapE (\<lambda>i. bindE (idx prompts_without_padding i)
                    (\<lambda>prompt. Inr (response_mask_row (sequences_mask ! i) prompt)))
              [0..<length sequences_mask])
       torch_stack"

subsection \<open>process\_sequences\<close>

text \<open>
  \<open>pad_sequence\<close> with \<open>batch_first=True\<close>: every sequence is padded on the right to the
  longest one; it raises on an empty list.
\<close>

definition pad_sequence :: "int \<Rightarrow> int list list \<Rightarrow> exn + int list list" where
  "pad_sequence padding_value seqs =
     (if seqs = [] then Inl RuntimeError
      else Inr (map (\<lambda>s. s @ replicate (Max (set (map length seqs)) - length s) padding_value)
                  seqs))"

definition strip_pair :: "int \<Rightarrow> int list \<Rightarrow> int list \<Rightarrow> int list \<times> int list" where
  "strip_pair pad_token_id prompt response =
     (let prompt_left_padding_length = length (filter (\<lambda>t. t = pad_token_id) prompt);
          response_length = length (filter (\<lambda>t. t \<noteq> pad_token_id) response)
      in (drop prompt_left_padding_length prompt, take response_length response))"

text \<open>
  The result is \<open>(prompts_without_padding, responses_without_padding, sequences)\<close>
  with \<open>sequences = (input_ids, attention_mask)\<close>.
\<close>

definition process_sequences ::
  "int \<Rightarrow> int list list \<Rightarrow> int list list
     \<Rightarrow> exn + (int list list \<times> int list list \<times> (int list list \<times> int list list))" where
  "process_sequences pad_token_id prompts_ids responses_ids =
     bindE (mapE (\<lambda>i. bindE (idx responses_ids i)
                    (\<lambda>response. Inr (strip_pair pad_token_id (prompts_ids ! i) response)))
              [0..<length prompts_ids])
       (\<lambda>pairs.
          let prompts_without_padding = map fst pairs;
              responses_without_padding = map snd pairs;
              new_sequences = map (\<lambda>(q, r). q @ r) (zip prompts_without_padding responses_without_padding)
          in bindE (pad_sequence pad_token_id new_sequences)
               (\<lambda>sequences.
                  Inr (prompts_without_padding, responses_without_padding,
                       (sequences, map (map (\<lambda>t. if t \<noteq> pad_token_id then 1 else 0)) sequences))))"

subsection \<open>get\_mini\_dataset\<close>

text \<open>
  An experience record and the optional extra batch are dictionaries from a key to a value
  that is indexed along the batch dimension; the value is modelled by the list of its
  per-example entries. Moving a tensor to the device (\<open>.to(self.device)\<close>) does not
  change it, so both branches of the key test take the same slice.
\<close>

record 'a buffer_item =
  item_exp :: "string \<rightharpoonup> 'a list"
  item_extra :: "(string \<rightharpoonup> 'a list) option"

text \<open>Python's \<open>v[start:stop]\<close>, negative bounds counting from the end.\<close>

definition clip_index :: "int \<Rightarrow> int \<Rightarrow> nat" where
  "clip_index n k = nat (if k < 0 then max (k + n) 0 else min k n)"

definition py_slice :: "'a list \<Rightarrow> int \<Rightarrow> int \<Rightarrow> 'a list" where
  "py_slice v start stop =
     (let n = int (length v); s = clip_index n start; e = clip_index n stop
      in take (e - s) (drop s v))"

definition mini_batch ::
  "(string \<rightharpoonup> 'a list) \<Rightarrow> (string \<rightharpoonup> 'a list) option \<Rightarrow> int \<Rightarrow> int \<Rightarrow> (string \<rightharpoonup> 'a list)" where
  "mini_batch experience_data batch_extra_data index mb =
     (let dic = (\<lambda>k. map_option (\<lambda>v. py_slice v index (index + mb)) (experience_data k))
      in case batch_extra_data of
           None \<Rightarrow> dic
         | Some extra_data \<Rightarrow>
             dic ++ (\<lambda>k. map_option (\<lambda>v. py_slice v index (index + mb)) (extra_data k)))"

text \<open>
  The \<open>while index < batch_size\<close> loop. It does not terminate when the minibatch size is
  not positive, so it is a partial function: not returning is \<open>None\<close>.
\<close>

partial_function (option) mini_loop ::
  "(string \<rightharpoonup> 'a list) \<Rightarrow> (string \<rightharpoonup> 'a list) option \<Rightarrow> int \<Rightarrow> int \<Rightarrow> int
     \<Rightarrow> (string \<rightharpoonup> 'a list) list \<Rightarrow> (string \<rightharpoonup> 'a list) list option" where
  "mini_loop experience_data batch_extra_data batch_size mb index mini_dataset =
     (if index < batch_size
      then mini_loop experience_data batch_extra_data batch_size mb (index + mb)
             (mini_dataset @ [mini_batch experience_data batch_extra_data index mb])
      else Some mini_dataset)"

fun mini_items ::
  "'a buffer_item list \<Rightarrow> int \<Rightarrow> int \<Rightarrow> (string \<rightharpoonup> 'a list) list
     \<Rightarrow> (string \<rightharpoonup> 'a list) list option" where
  "mini_items [] batch_size mb mini_dataset = Some mini_dataset"
| "mini_items (item # items) batch_size mb mini_dataset =
     (case mini_loop (item_exp item) (item_extra item) batch_size mb 0 mini_dataset of
        None \<Rightarrow> None
      | Some mini_dataset' \<Rightarrow> mini_items items batch_size mb mini_dataset')"

definition get_mini_dataset ::
  "int \<Rightarrow> 'a buffer_item list \<Rightarrow> (exn + (string \<rightharpoonup> 'a list) list) option" where
  "get_mini_dataset per_device_mini_train_batch_size data_buffer =
     (case data_buffer of
        [] \<Rightarrow> Some (Inl IndexError)
      | first # _ \<Rightarrow>
          (case item_exp first ''sequences_ids'' of
             None \<Rightarrow> Some (Inl KeyError)
           | Some v \<Rightarrow>
               map_option Inr
                 (mini_items data_buffer (int (length v)) per_device_mini_train_batch_size [])))"

text \<open>The number of iterations of the loop over a record of \<open>n\<close> examples.\<close>

definition chunks :: "int \<Rightarrow> int \<Rightarrow> nat" where
  "chunks n mb = nat ((n + mb - 1) div mb)"

subsection \<open>Training arguments\<close>

record args =
  kl_penalty_method :: string
  kl_penalty_beta :: real
  reward_score_clip :: "real option"
  gamma :: real
  lam :: real
  use_advantage_norm :: bool
  ratio_clip :: real
  extra_loss_weight :: real
  extra_warmup_steps_ratio :: "real option"

subsection \<open>Elementwise operations with broadcasting\<close>

text \<open>
  Along one dimension torch combines two operands of equal size position by position,
  stretches an operand of size 1, and raises otherwise. A binary operation on tensors of
  shape \<open>[B, T]\<close> applies this rule to the rows and, within each pair of rows, to the
  entries.
\<close>

definition bcast :: "('a \<Rightarrow> 'b \<Rightarrow> exn + 'c) \<Rightarrow> 'a list \<Rightarrow> 'b list \<Rightarrow> exn + 'c list" where
  "bcast f a b =
     (if length a = length b then mapE (\<lambda>(x, y). f x y) (zip a b)
      else if length a = 1 then mapE (f (hd a)) b
      else if length b = 1 then mapE (\<lambda>x. f x (hd b)) a
      else Inl RuntimeError)"

definition ew1 :: "(real \<Rightarrow> real \<Rightarrow> real) \<Rightarrow> real list \<Rightarrow> real list \<Rightarrow> exn + real list" where
  "ew1 f = bcast (\<lambda>x y. Inr (f x y))"

definition ew2 ::
  "(real \<Rightarrow> real \<Rightarrow> real) \<Rightarrow> real list list \<Rightarrow> real list list \<Rightarrow> exn + real list list" where
  "ew2 f = bcast (ew1 f)"

definition to_float :: "int list list \<Rightarrow> real list list" where
  "to_float mask' = map (map real_of_int) mask'"

text \<open>\<open>t.sum()\<close> over all entries.\<close>

definition tsum :: "real list list \<Rightarrow> real" where
  "tsum t = sum_list (map sum_list t)"

definition isum :: "int list list \<Rightarrow> int" where
  "isum t = sum_list (map sum_list t)"

text \<open>\<open>torch.clamp(x, lo, hi)\<close>; where \<open>lo > hi\<close> the result is \<open>hi\<close>.\<close>

definition clamp :: "real \<Rightarrow> real \<Rightarrow> real \<Rightarrow> real" where
  "clamp x lo hi = min (max x lo) hi"

subsection \<open>masked\_mean and actor\_loss\<close>

text \<open>
  \<open>masked_mean\<close> with \<open>dim=None\<close> and \<open>eps=1e-8\<close>. The mask is an integer tensor, so
  the denominator \<open>mask.sum() + eps\<close> is never zero.
\<close>

definition masked_mean :: "real list list \<Rightarrow> int list list \<Rightarrow> exn + real" where
  "masked_mean data mask' =
     bindE (ew2 (*) data (to_float mask'))
       (\<lambda>data'. Inr (tsum data' / (real_of_int (isum mask') + 1 / 10 ^ 8)))"

text \<open>
  The tensors \<open>ratio\<close> and \<open>torch.max(loss1, loss2)\<close> of \<open>actor_loss\<close>; the function
  returns the masked mean of the second and the first.
\<close>

definition actor_loss_terms ::
  "args \<Rightarrow> real list list \<Rightarrow> real list list \<Rightarrow> real list list \<Rightarrow> int list list
     \<Rightarrow> exn + (real list list \<times> real list list)" where
  "actor_loss_terms a actor_log_probs mini_batch_actor_log_probs advantages mask' =
     bindE (ew2 (-) mini_batch_actor_log_probs actor_log_probs) (\<lambda>diff.
     bindE (ew2 (*) diff (to_float mask')) (\<lambda>masked.
       let ratio = map (map exp) masked;
           neg_advantages = map (map uminus) advantages
       in
     bindE (ew2 (*) neg_advantages ratio) (\<lambda>loss1.
     bindE (ew2 (*) neg_advantages
              (map (map (\<lambda>r. clamp r (1 - ratio_clip a) (1 + ratio_clip a))) ratio)) (\<lambda>loss2.
     bindE (ew2 max loss1 loss2) (\<lambda>terms. Inr (terms, ratio))))))"

definition actor_loss ::
  "args \<Rightarrow> real list list \<Rightarrow> real list list \<Rightarrow> real list list \<Rightarrow> int list list
     \<Rightarrow> exn + (real \<times> real list list)" where
  "actor_loss a actor_log_probs mini_batch_actor_log_probs advantages mask' =
     bindE (actor_loss_terms a actor_log_probs mini_batch_actor_log_probs advantages mask')
       (\<lambda>(terms, ratio). bindE (masked_mean terms mask') (\<lambda>loss. Inr (loss, ratio)))"

text \<open>A tensor of shape \<open>[B, T]\<close>.\<close>

definition shape2 :: "nat \<Rightarrow> nat \<Rightarrow> 'a list list \<Rightarrow> bool" where
  "shape2 B T x \<longleftrightarrow> length x = B \<and> list_all (\<lambda>r. length r = T) x"

text \<open>The position-by-position combination of two tensors of one shape.\<close>

definition zip2 :: "(real \<Rightarrow> real \<Rightarrow> real) \<Rightarrow> real list list \<Rightarrow> real list list \<Rightarrow> real list list" where
  "zip2 f a b = map (\<lambda>(x, y). map (\<lambda>(u, v). f u v) (zip x y)) (zip a b)"

subsection \<open>train\_step: the weight of the extra loss\<close>

text \<open>\<open>int(x)\<close> on a float truncates toward zero.\<close>

definition py_int :: "real \<Rightarrow> int" where
  "py_int x = (if 0 \<le> x then \<lfloor>x\<rfloor> else \<lceil>x\<rceil>)"

text \<open>
  A Python float raised to the power \<open>1.001\<close> is a float for a base that is not
  negative, and a complex number for a negative base.
\<close>

datatype weight = Weight real | ComplexWeight

definition py_pow :: "real \<Rightarrow> real \<Rightarrow> weight" where
  "py_pow x y = (if x < 0 then ComplexWeight else Weight (x powr y))"

text \<open>
  The first statements of \<open>train_step\<close>, which compute \<open>extra_loss_weight_warmup\<close> from
  the arguments, \<open>self.max_steps\<close> and \<open>step\<close>. The variable is local and is
  initialised from \<open>self.args.extra_loss_weight\<close> on every call.

  The number of warm-up steps is \<open>int\<close> of a product of floats, and it decides the
  branch taken. The float product is rounded, so it can truncate to another integer than
  the exact product does (\<open>0.29 * 100\<close> is \<open>28.999999999999996\<close> as a float, and
  \<open>int\<close> of it is 28). The float multiplication is therefore a parameter of the model:
  \<open>fmul ratio max_steps\<close> is the float that Python computes for
  \<open>self.args.extra_warmup_steps_ratio * self.max_steps\<close>.
\<close>

definition extra_loss_weight_warmup ::
  "(real \<Rightarrow> int \<Rightarrow> real) \<Rightarrow> args \<Rightarrow> int \<Rightarrow> int \<Rightarrow> exn + weight" where
  "extra_loss_weight_warmup fmul a max_steps step =
     (let extra_loss_weight_warmup = extra_loss_weight a
      in case extra_warmup_steps_ratio a of
           None \<Rightarrow> Inr (Weight extra_loss_weight_warmup)
         | Some ratio \<Rightarrow>
             (let extra_warmup_steps = py_int (fmul ratio max_steps)
              in if step < extra_warmup_steps
                 then (if extra_warmup_steps = 0 then Inl ZeroDivisionError
                       else Inr (Weight (real_of_int step / real_of_int extra_warmup_steps
                                           * extra_loss_weight a)))
                 else Inr (py_pow extra_loss_weight_warmup (1001 / 1000))))"

subsection \<open>Concrete inputs used in the examples\<close>

definition example_buffer :: "int buffer_item list" where
  "example_buffer =
     [\<lparr>item_exp = [''sequences_ids'' \<mapsto> [1, 2, 3, 4, 5]], item_extra = None\<rparr>]"

text \<open>The values stored under one key in a list of minibatches.\<close>

definition entries :: "string \<Rightarrow> (string \<rightharpoonup> 'a list) list \<Rightarrow> 'a list option list" where
  "entries k ds = map (\<lambda>d. d k) ds"

text \<open>
  The float multiplication at inputs where it is exact, as it is for \<open>0.5 * 4 = 2.0\<close>.
\<close>

definition exact_product :: "real \<Rightarrow> int \<Rightarrow> real" where
  "exact_product ratio max_steps = ratio * real_of_int max_steps"

definition example_args :: args where
  "example_args =
     \<lparr>kl_penalty_method = ''identity'', kl_penalty_beta = 1 / 10, reward_score_clip = None,
      gamma = 1, lam = 1, use_advantage_norm = False, ratio_clip = 1 / 5,
      extra_loss_weight = 2, extra_warmup_steps_ratio = Some (1 / 2)\<rparr>"

subsection \<open>get\_last\_reward\_score and compute\_rewards\_with\_kl\_penalty\<close>

text \<open>
  \<open>m.nonzero()[-1].item()\<close> for a tensor of shape \<open>[T]\<close>: \<open>nonzero\<close> lists the indices
  of the nonzero entries in increasing order, and \<open>[-1]\<close> raises when there is none.
\<close>

definition last_nonzero :: "int list \<Rightarrow> exn + nat" where
  "last_nonzero m =
     (case filter (\<lambda>k. m ! k \<noteq> 0) [0..<length m] of
        [] \<Rightarrow> Inl IndexError
      | k # ks \<Rightarrow> Inr (last (k # ks)))"

text \<open>\<open>torch.stack\<close> of a list of scalars.\<close>

definition stack_scalars :: "'a list \<Rightarrow> exn + 'a list" where
  "stack_scalars xs = (if xs = [] then Inl RuntimeError else Inr xs)"

definition get_last_reward_score :: "real list list \<Rightarrow> int list list \<Rightarrow> exn + real list" where
  "get_last_reward_score values responses_mask =
     bindE (mapE (\<lambda>i. let value = values ! i
                      in bindE (idx responses_mask i) (\<lambda>row.
                         bindE (last_nonzero row) (\<lambda>end_index.
                         idx value end_index)))
              [0..<length values])
       stack_scalars"

definition kl_transform :: "string \<Rightarrow> real \<Rightarrow> real" where
  "kl_transform method kl =
     (if method = ''abs'' then \<bar>kl\<bar>
      else if method = ''mse'' then kl ^ 2 * (1 / 2)
      else kl)"

text \<open>
  One iteration of the loop of \<open>compute_rewards_with_kl_penalty\<close>: the row of rewards and
  the (clamped) score written back to \<open>rewards_score[i]\<close>.
\<close>

definition reward_row ::
  "args \<Rightarrow> real list \<Rightarrow> real list \<Rightarrow> int list \<Rightarrow> real \<Rightarrow> exn + (real list \<times> real)" where
  "reward_row a actor_log_probs_i ref_log_probs_i mask' score =
     bindE (ew1 (-) actor_log_probs_i ref_log_probs_i) (\<lambda>kl.
       let kl_penalty = map (\<lambda>x. - kl_penalty_beta a * kl_transform (kl_penalty_method a) x) kl;
           score' = (case reward_score_clip a of
                       None \<Rightarrow> score
                     | Some c \<Rightarrow> clamp score (- c) c)
       in bindE (last_nonzero mask') (\<lambda>end_index.
            if end_index < length kl_penalty
            then Inr (kl_penalty[end_index := kl_penalty ! end_index + score'], score')
            else Inl IndexError))"

text \<open>
  The result is \<open>(rewards_with_kl_penalty, kl_penalty_all, rewards_score)\<close>. The row
  appended to \<open>kl_penalty_all\<close> is the tensor that is then updated in place at
  \<open>end_index\<close> and appended to \<open>rewards_with_kl_penalty\<close>, so both stacks hold the
  updated rows.
\<close>

definition compute_rewards_with_kl_penalty ::
  "args \<Rightarrow> real list list \<Rightarrow> real list list \<Rightarrow> real list list \<Rightarrow> int list list
     \<Rightarrow> exn + (real list list \<times> real list list \<times> real list)" where
  "compute_rewards_with_kl_penalty a ref_values actor_log_probs ref_log_probs responses_mask =
     (let masks = map tl responses_mask
      in bindE (get_last_reward_score ref_values responses_mask) (\<lambda>rewards_score.
         bindE (mapE (\<lambda>i. bindE (idx masks i) (\<lambda>mask'.
                          bindE (idx actor_log_probs i) (\<lambda>alp.
                          bindE (idx ref_log_probs i) (\<lambda>rlp.
                          reward_row a alp rlp mask' (rewards_score ! i)))))
                  [0..<length rewards_score]) (\<lambda>rows.
         bindE (torch_stack (map fst rows)) (\<lambda>rewards_with_kl_penalty.
         bindE (torch_stack (map fst rows)) (\<lambda>kl_penalty_all.
         Inr (rewards_with_kl_penalty, kl_penalty_all, map snd rows))))))"

subsection \<open>masked\_whiten\<close>

text \<open>
  Where torch divides by zero or takes \<open>rsqrt\<close> of a number that is not positive it
  raises nothing: every entry of the result is \<open>nan\<close> or \<open>inf\<close>. The real numbers have
  no such values, so the result of \<open>masked_whiten\<close> is either a tensor of reals or
  \<open>NotFinite\<close>. The result always has the shape of \<open>data\<close>; \<open>dim\<close> is not used by the
  function.
\<close>

datatype ftensor = Finite "real list list" | NotFinite

definition masked_whiten :: "real list list \<Rightarrow> int list list \<Rightarrow> bool \<Rightarrow> exn + ftensor" where
  "masked_whiten data mask' shift_mean =
     (let n = real_of_int (isum mask');
          mean = tsum data / n;
          centered = map (map (\<lambda>x. x - mean)) data
      in bindE (ew2 (*) (map (map (\<lambda>x. x ^ 2)) centered) (to_float mask')) (\<lambda>squares.
           let var = tsum squares / n
           in if concat data = [] then Inr (Finite data)
              else if isum mask' = 0 \<or> var + 1 / 10 ^ 6 \<le> 0 then Inr NotFinite
              else
                let whitened = map (map (\<lambda>x. x * (1 / sqrt (var + 1 / 10 ^ 6)))) centered
                in Inr (Finite (if \<not> shift_mean then map (map (\<lambda>x. x + mean)) whitened
                                else whitened))))"

subsection \<open>get\_advantages\_and\_returns\<close>

text \<open>
  \<open>x.size()[-1]\<close> and \<open>x[:, t]\<close> for a tensor of shape \<open>[B, T]\<close> with \<open>B > 0\<close> (a list of
  rows does not record \<open>T\<close> when there is no row).
\<close>

definition ncols :: "'a list list \<Rightarrow> nat" where
  "ncols x = (case x of [] \<Rightarrow> 0 | r # _ \<Rightarrow> length r)"

definition column :: "'a list list \<Rightarrow> nat \<Rightarrow> exn + 'a list" where
  "column x t = (if t < ncols x then Inr (map (\<lambda>i. x ! i ! t) [0..<length x])
                 else Inl IndexError)"

text \<open>\<open>x.transpose(0, 1)\<close> for a stacked, hence not empty, list of tensors of one size.\<close>

definition transpose01 :: "'a list list \<Rightarrow> 'a list list" where
  "transpose01 x = map (\<lambda>i. map (\<lambda>c. c ! i) x) [0..<length (hd x)]"

text \<open>
  The loop \<open>for t in reversed(range(length))\<close>, over the list of the remaining values of
  \<open>t\<close>. The Python scalars \<open>lastgaelam = 0\<close> and \<open>nextvalues = 0.0\<close> are combined with
  columns of the batch and are modelled by the column of zeros.
\<close>

fun gae_loop ::
  "args \<Rightarrow> real list list \<Rightarrow> real list list \<Rightarrow> nat \<Rightarrow> nat list \<Rightarrow> real list \<Rightarrow> real list list
     \<Rightarrow> exn + real list list" where
  "gae_loop a values rewards length' [] lastgaelam advantages_reversed =
     Inr advantages_reversed"
| "gae_loop a values rewards length' (t # ts) lastgaelam advantages_reversed =
     bindE (if t < length' - 1 then column values (t + 1)
            else Inr (replicate (length rewards) 0)) (\<lambda>nextvalues.
     bindE (column rewards t) (\<lambda>rewards_t.
     bindE (ew1 (+) rewards_t (map (\<lambda>x. gamma a * x) nextvalues)) (\<lambda>s.
     bindE (column values t) (\<lambda>values_t.
     bindE (ew1 (-) s values_t) (\<lambda>delta.
     bindE (ew1 (+) delta (map (\<lambda>x. gamma a * lam a * x) lastgaelam)) (\<lambda>lastgaelam'.
     gae_loop a values rewards length' ts lastgaelam'
       (advantages_reversed @ [lastgaelam'])))))))"

text \<open>The result is \<open>(advantages, returns)\<close>.\<close>

definition get_advantages_and_returns ::
  "args \<Rightarrow> real list list \<Rightarrow> real list list \<Rightarrow> int list list
     \<Rightarrow> exn + (ftensor \<times> real list list)" where
  "get_advantages_and_returns a values rewards responses_mask =
     (let masks = map tl responses_mask;
          length' = ncols rewards
      in bindE (gae_loop a values rewards length' (rev [0..<length'])
                  (replicate (length rewards) 0) []) (\<lambda>advantages_reversed.
         bindE (torch_stack (rev advantages_reversed)) (\<lambda>stacked.
           let advantages = transpose01 stacked
           in bindE (ew2 (+) advantages values) (\<lambda>returns.
                if use_advantage_norm a
                then bindE (masked_whiten advantages masks True)
                       (\<lambda>advantages'. Inr (advantages', returns))
                else Inr (Finite advantages, returns)))))"

subsection \<open>The recursion of generalized advantage estimation, as the specification states it\<close>

text \<open>
  \<open>delta_t = reward_t + gamma * value_{t+1} - value_t\<close> with the value after the last
  step taken as 0, and \<open>gae_t = delta_t + gamma * lam * gae_{t+1}\<close>, for one example with
  rewards \<open>rs\<close> and values \<open>vs\<close>.
\<close>

function gae_at :: "real \<Rightarrow> real \<Rightarrow> real list \<Rightarrow> real list \<Rightarrow> nat \<Rightarrow> real" where
  "gae_at g l rs vs t =
     (if t < length rs
      then rs ! t + g * (if t + 1 < length rs then vs ! (t + 1) else 0) - vs ! t
             + g * l * gae_at g l rs vs (t + 1)
      else 0)"
  by pat_completeness auto
termination
  by (relation "measure (\<lambda>(g, l, rs, vs, t). length rs - t)") auto

declare gae_at.simps [simp del]

text \<open>The column of the estimates at step \<open>t\<close> for a batch of \<open>B\<close> examples.\<close>

definition gae_col :: "args \<Rightarrow> real list list \<Rightarrow> real list list \<Rightarrow> nat \<Rightarrow> nat \<Rightarrow> real list" where
  "gae_col a values rewards B t =
     map (\<lambda>i. gae_at (gamma a) (lam a) (rewards ! i) (values ! i) t) [0..<B]"

text \<open>The tensor of the estimates for a batch of shape \<open>[B, T]\<close>.\<close>

definition gae_tensor :: "args \<Rightarrow> real list list \<Rightarrow> real list list \<Rightarrow> nat \<Rightarrow> nat \<Rightarrow> real list list" where
  "gae_tensor a values rewards B T =
     map (\<lambda>i. map (\<lambda>t. gae_at (gamma a) (lam a) (rewards ! i) (values ! i) t) [0..<T]) [0..<B]"

subsection \<open>Mean and variance over the valid positions, as the specification states them\<close>

definition valid_mean :: "real list list \<Rightarrow> int list list \<Rightarrow> real" where
  "valid_mean w mask' = tsum (zip2 (*) w (to_float mask')) / real_of_int (isum mask')"

definition valid_var :: "real list list \<Rightarrow> int list list \<Rightarrow> real" where
  "valid_var w mask' =
     tsum (zip2 (*) (map (map (\<lambda>x. (x - valid_mean w mask') ^ 2)) w) (to_float mask'))
       / real_of_int (isum mask')"

text \<open>The sum of \<open>g(x) * mask\<close> over all positions of a tensor of shape \<open>[B, T]\<close>.\<close>

definition wsum :: "(real \<Rightarrow> real) \<Rightarrow> real list list \<Rightarrow> int list list \<Rightarrow> nat \<Rightarrow> nat \<Rightarrow> real" where
  "wsum g x m B T = (\<Sum>i<B. \<Sum>t<T. g (x ! i ! t) * real_of_int (m ! i ! t))"

subsection \<open>get\_model\_output and get\_co\_model\_output: the state that is switched\<close>

text \<open>
  The object state these functions change: the weights of the value head, the buffers
  \<open>reward_head_*\<close> and \<open>critic_head_*\<close> registered on the critic model, and the adapter
  configuration. Tensors are references to storage, so the state has a store from
  addresses to tensor contents:
  \<^item> \<open>v_head.state_dict()\<close> returns detached tensors that share the storage of the
    parameters;
  \<^item> \<open>setattr\<close> on a registered buffer binds the name to the tensor given;
  \<^item> \<open>v_head.load_state_dict\<close> copies the contents of the given tensors into the
    storage of the parameters, \<open>summary.weight\<close> first.
  In the model with two models \<open>critic_adapter_enabled\<close> belongs to
  \<open>critic_model.pretrained_model\<close> and \<open>actor_adapter_enabled\<close> to \<open>actor_model\<close>; the
  shared model has the first flag and \<open>active_adapter\<close> only.
\<close>

type_synonym addr = nat

record 'w models =
  storage :: "addr \<Rightarrow> 'w"
  v_head_weight :: addr
  v_head_bias :: addr
  reward_head_weight :: addr
  reward_head_bias :: addr
  critic_head_weight :: addr
  critic_head_bias :: addr
  critic_adapter_enabled :: bool
  actor_adapter_enabled :: bool
  active_adapter :: string

definition head_weights :: "'w models \<Rightarrow> 'w \<times> 'w" where
  "head_weights s = (storage s (v_head_weight s), storage s (v_head_bias s))"

definition load_state_dict :: "'w models \<Rightarrow> addr \<Rightarrow> addr \<Rightarrow> 'w models" where
  "load_state_dict s summary_weight summary_bias =
     (let st = (storage s)(v_head_weight s := storage s summary_weight)
      in s\<lparr>storage := st(v_head_bias s := st summary_bias)\<rparr>)"

text \<open>
  The forward passes are parameters of the model: a function from the place of the call
  and the state at the call to the output, or to the exception raised.
\<close>

datatype call = ActorCritic | CriticAdapter | Reference | Reward

text \<open>
  \<open>with model.disable_adapter(): body\<close>. The context manager is library code: it
  disables the adapter layers, runs the body and enables them again. Whether it also
  enables them when the body raises is the parameter \<open>on_raise\<close>.
\<close>

definition disable_adapter ::
  "bool \<Rightarrow> (bool \<Rightarrow> 's \<Rightarrow> 's) \<Rightarrow> ('s \<Rightarrow> (exn + 'a) \<times> 's) \<Rightarrow> 's \<Rightarrow> (exn + 'a) \<times> 's" where
  "disable_adapter on_raise set_enabled body s =
     (case body (set_enabled False s) of
        (Inr x, s') \<Rightarrow> (Inr x, set_enabled True s')
      | (Inl e, s') \<Rightarrow> (Inl e, if on_raise then set_enabled True s' else s'))"

text \<open>
  The statements under the comments \<open>save current critic model v_head\<close>,
  \<open>change to reward model v_head\<close> and \<open>back to critic model v_head\<close>, the same in both
  functions.
\<close>

definition reward_forward ::
  "(call \<Rightarrow> 'w models \<Rightarrow> exn + 'o) \<Rightarrow> 'w models \<Rightarrow> (exn + 'o) \<times> 'w models" where
  "reward_forward fwd s =
     (let s1 = s\<lparr>critic_head_weight := v_head_weight s, critic_head_bias := v_head_bias s\<rparr>;
          s2 = load_state_dict s1 (reward_head_weight s1) (reward_head_bias s1)
      in case fwd Reward s2 of
           Inl e \<Rightarrow> (Inl e, s2)
         | Inr ref_values \<Rightarrow>
             (Inr ref_values, load_state_dict s2 (critic_head_weight s2) (critic_head_bias s2)))"

text \<open>The state in which the forward pass under the reward head runs.\<close>

definition swapped :: "'w models \<Rightarrow> 'w models" where
  "swapped s =
     load_state_dict (s\<lparr>critic_head_weight := v_head_weight s, critic_head_bias := v_head_bias s\<rparr>)
       (reward_head_weight s) (reward_head_bias s)"

text \<open>The result is \<open>(actor_logits and critic_values, ref_logits, ref_values)\<close>.\<close>

definition get_model_output ::
  "(call \<Rightarrow> 'w models \<Rightarrow> exn + 'o) \<Rightarrow> bool \<Rightarrow> 'w models
     \<Rightarrow> (exn + ('o \<times> 'o \<times> 'o)) \<times> 'w models" where
  "get_model_output fwd on_raise s =
     (case fwd ActorCritic s of
        Inl e \<Rightarrow> (Inl e, s)
      | Inr actor_critic \<Rightarrow>
          (case disable_adapter on_raise (\<lambda>b s. s\<lparr>actor_adapter_enabled := b\<rparr>)
                  (\<lambda>s. (fwd Reference s, s)) s of
             (Inl e, s') \<Rightarrow> (Inl e, s')
           | (Inr ref_logits, s') \<Rightarrow>
               (case disable_adapter on_raise (\<lambda>b s. s\<lparr>critic_adapter_enabled := b\<rparr>)
                       (reward_forward fwd) s' of
                  (Inl e, s'') \<Rightarrow> (Inl e, s'')
                | (Inr ref_values, s'') \<Rightarrow> (Inr (actor_critic, ref_logits, ref_values), s''))))"

text \<open>
  The result is \<open>(actor_logits and critic_values of the first pass, critic_values,
  ref_logits, ref_values)\<close>, the second component being that of the pass under the
  \<open>critic\<close> adapter when \<open>use_multi_adapters\<close> is set.
\<close>

definition get_co_model_output ::
  "(call \<Rightarrow> 'w models \<Rightarrow> exn + 'o) \<Rightarrow> bool \<Rightarrow> bool \<Rightarrow> 'w models
     \<Rightarrow> (exn + ('o \<times> 'o \<times> 'o \<times> 'o)) \<times> 'w models" where
  "get_co_model_output fwd on_raise use_multi_adapters s =
     (case fwd ActorCritic s of
        Inl e \<Rightarrow> (Inl e, s)
      | Inr actor_critic \<Rightarrow>
          (case (if use_multi_adapters
                 then (let s1 = s\<lparr>active_adapter := ''critic''\<rparr>
                       in case fwd CriticAdapter s1 of
                            Inl e \<Rightarrow> (Inl e, s1)
                          | Inr critic_values \<Rightarrow>
                              (Inr critic_values, s1\<lparr>active_adapter := ''default''\<rparr>))
                 else (Inr actor_critic, s)) of
             (Inl e, s') \<Rightarrow> (Inl e, s')
           | (Inr critic_values, s') \<Rightarrow>
               (case disable_adapter on_raise (\<lambda>b s. s\<lparr>critic_adapter_enabled := b\<rparr>)
                       (\<lambda>s. case fwd Reference s of
                                Inl e \<Rightarrow> (Inl e, s)
                              | Inr ref_logits \<Rightarrow>
                                  (case reward_forward fwd s of
                                     (Inl e, s') \<Rightarrow> (Inl e, s')
                                   | (Inr ref_values, s') \<Rightarrow> (Inr (ref_logits, ref_values), s')))
                       s' of
                  (Inl e, s'') \<Rightarrow> (Inl e, s'')
                | (Inr (ref_logits, ref_values), s'') \<Rightarrow>
                    (Inr (actor_critic, critic_values, ref_logits, ref_values), s''))))"

text \<open>
  A state in which the critic's value head (weight 10, bias 11) differs from the reward
  head (weight 20, bias 21), and forward passes of which the one under the reward head
  raises.
\<close>

definition example_models :: "int models" where
  "example_models =
     \<lparr>storage = (\<lambda>a. if a = 0 then 10 else if a = 1 then 11 else if a = 2 then 20 else 21),
      v_head_weight = 0, v_head_bias = 1, reward_head_weight = 2, reward_head_bias = 3,
      critic_head_weight = 2, critic_head_bias = 3,
      critic_adapter_enabled = True, actor_adapter_enabled = True,
      active_adapter = ''default''\<rparr>"

definition reward_pass_raises :: "call \<Rightarrow> int models \<Rightarrow> exn + unit" where
  "reward_pass_raises c s = (if c = Reward then Inl ForwardError else Inr ())"

definition all_passes_return :: "call \<Rightarrow> int models \<Rightarrow> exn + unit" where
  "all_passes_return c s = Inr ()"

section \<open>Properties\<close>

subsection \<open>Loops over a batch\<close>

lemma bindE_Inr [simp]: "bindE (Inr x) f = f x"
  by (simp add: bindE_def)

lemma bindE_Inl [simp]: "bindE (Inl e) f = Inl e"
  by (simp add: bindE_def)

lemma mapE_Inr_iff:
  "mapE f xs = Inr ys \<longleftrightarrow> length ys = length xs \<and> (\<forall>k<length xs. f (xs ! k) = Inr (ys ! k))"
proof (induction xs arbitrary: ys)
  case Nil
  then show ?case by auto
next
  case (Cons x xs)
  show ?case
  proof (cases ys)
    case Nil
    then show ?thesis by (auto split: sum.splits)
  next
    case (Cons y ys')
    have "(\<forall>k<Suc (length xs). f ((x # xs) ! k) = Inr ((y # ys') ! k))
            \<longleftrightarrow> f x = Inr y \<and> (\<forall>k<length xs. f (xs ! k) = Inr (ys' ! k))"
      by (auto simp: nth_Cons split: nat.splits)
    with Cons Cons.IH [of ys'] show ?thesis
      by (auto split: sum.splits)
  qed
qed

lemma mapE_pure: "mapE (\<lambda>x. Inr (g x)) xs = Inr (map g xs)"
  by (induction xs) auto

lemma mapE_cong_Inr:
  "(\<And>x. x \<in> set xs \<Longrightarrow> f x = Inr (g x)) \<Longrightarrow> mapE f xs = Inr (map g xs)"
  by (induction xs) auto

lemma same_len_iff: "same_len xs \<longleftrightarrow> (\<forall>r\<in>set xs. length r = length (hd xs))"
  by (simp add: same_len_def list_all_iff)

subsection \<open>The response mask\<close>

lemma response_mask_row_length: "length (response_mask_row m p) = length m"
  by (simp add: response_mask_row_def)

lemma response_mask_row_nth:
  "j < length m \<Longrightarrow> response_mask_row m p ! j = (if j < length p then 0 else m ! j)"
  by (auto simp: response_mask_row_def nth_append min_def)

lemma get_responses_mask_eq:
  assumes "same_len sequences_mask" and "sequences_mask \<noteq> []"
    and "length sequences_mask \<le> length prompts"
  shows "get_responses_mask sequences_mask prompts =
           Inr (map (\<lambda>i. response_mask_row (sequences_mask ! i) (prompts ! i))
                  [0..<length sequences_mask])"
proof -
  let ?g = "\<lambda>i. response_mask_row (sequences_mask ! i) (prompts ! i)"
  have loop: "mapE (\<lambda>i. bindE (idx prompts i)
                 (\<lambda>prompt. Inr (response_mask_row (sequences_mask ! i) prompt)))
               [0..<length sequences_mask] = Inr (map ?g [0..<length sequences_mask])"
    using assms(3) by (intro mapE_cong_Inr) (simp add: idx_def)
  have "same_len (map ?g [0..<length sequences_mask])"
    using assms(1,2)
    by (cases sequences_mask)
      (auto simp: same_len_iff response_mask_row_length hd_map upt_conv_Cons
        simp del: upt_Suc)
  moreover have "map ?g [0..<length sequences_mask] \<noteq> []"
    using assms(2) by simp
  ultimately show ?thesis
    unfolding get_responses_mask_def loop by (simp add: torch_stack_def)
qed

text \<open>
  C4. For every batch (a rectangular attention mask with a prompt for every row), the mask
  returned by \<open>get_responses_mask\<close> has the shape of the attention mask, is zero at every
  index below the prompt's length, whatever the attention mask holds there, and equals
  the attention mask at every index at or past the prompt's length.
\<close>

theorem get_responses_mask_spec:
  assumes "same_len sequences_mask"
    and "length sequences_mask \<le> length prompts"
    and "i < length sequences_mask"
    and "j < length (sequences_mask ! i)"
  shows "\<exists>rm. get_responses_mask sequences_mask prompts = Inr rm
           \<and> length rm = length sequences_mask
           \<and> length (rm ! i) = length (sequences_mask ! i)
           \<and> rm ! i ! j = (if j < length (prompts ! i) then 0 else sequences_mask ! i ! j)"
proof -
  from assms(3) have "sequences_mask \<noteq> []" by auto
  from get_responses_mask_eq [OF assms(1) this assms(2)] assms(3,4)
  show ?thesis
    by (simp add: response_mask_row_length response_mask_row_nth)
qed

theorem get_responses_mask_spec_witness:
  "\<exists>rm. get_responses_mask [[1, 1, 1, 0], [1, 1, 1, 1]] [[7, 8], [9]] = Inr rm
     \<and> length rm = 2 \<and> length (rm ! 0) = 4
     \<and> rm ! 0 ! 1 = 0 \<and> rm ! 0 ! 2 = 1 \<and> rm ! 0 ! 3 = 0"
  using get_responses_mask_spec [of "[[1, 1, 1, 0], [1, 1, 1, 1]]" "[[7, 8], [9]]" 0 1]
    get_responses_mask_spec [of "[[1, 1, 1, 0], [1, 1, 1, 1]]" "[[7, 8], [9]]" 0 2]
    get_responses_mask_spec [of "[[1, 1, 1, 0], [1, 1, 1, 1]]" "[[7, 8], [9]]" 0 3]
  by (auto simp: same_len_def)

subsection \<open>Stripping the padding\<close>

lemma strip_pair_all_pad:
  "\<forall>t\<in>set response. t = pad \<Longrightarrow> snd (strip_pair pad prompt response) = []"
  by (simp add: strip_pair_def Let_def filter_empty_conv[THEN iffD2])

lemma process_sequences_loop:
  assumes "length prompts_ids \<le> length responses_ids"
  shows "mapE (\<lambda>i. bindE (idx responses_ids i)
                    (\<lambda>response. Inr (strip_pair pad (prompts_ids ! i) response)))
              [0..<length prompts_ids]
         = Inr (map (\<lambda>i. strip_pair pad (prompts_ids ! i) (responses_ids ! i))
                  [0..<length prompts_ids])"
  using assms by (intro mapE_cong_Inr) (simp add: idx_def)

lemma process_sequences_returns:
  assumes "prompts_ids \<noteq> []" and "length prompts_ids \<le> length responses_ids"
  shows "\<exists>ids am. process_sequences pad prompts_ids responses_ids =
     Inr (map (\<lambda>i. fst (strip_pair pad (prompts_ids ! i) (responses_ids ! i)))
            [0..<length prompts_ids],
          map (\<lambda>i. snd (strip_pair pad (prompts_ids ! i) (responses_ids ! i)))
            [0..<length prompts_ids],
          (ids, am))"
proof -
  have ne: "[0..<length prompts_ids] \<noteq> []" using assms(1) by simp
  show ?thesis
    unfolding process_sequences_def process_sequences_loop [OF assms(2)]
    using ne by (simp add: Let_def pad_sequence_def comp_def del: upt_eq_Nil_conv)
qed

text \<open>
  C9, as stated, fails: for a response that is all padding the function raises nothing and
  clamps nothing. With pad token 0, prompt \<open>[0, 5]\<close> and response \<open>[0, 0]\<close> it returns
  the zero-length response \<open>[]\<close>.
\<close>

theorem process_sequences_silent_empty:
  "process_sequences 0 [[0, 5]] [[0, 0]] = Inr ([[5]], [[]], ([[5]], [[1]]))"
  by (simp add: process_sequences_def strip_pair_def idx_def pad_sequence_def Let_def)

text \<open>
  C9, amended. For every batch (a response for every prompt) in which some example's
  response consists entirely of padding tokens, \<open>process_sequences\<close> returns normally and
  the response returned for that example has length zero: no condition is signalled and
  nothing is clamped.
\<close>

theorem process_sequences_empty_response:
  assumes "i < length prompts_ids"
    and "length prompts_ids \<le> length responses_ids"
    and "\<forall>t\<in>set (responses_ids ! i). t = pad_token_id"
  shows "\<exists>p r s. process_sequences pad_token_id prompts_ids responses_ids = Inr (p, r, s)
           \<and> length r = length prompts_ids \<and> r ! i = []"
proof -
  from assms(1) have "prompts_ids \<noteq> []" by auto
  from process_sequences_returns [OF this assms(2), of pad_token_id]
  obtain ids am where "process_sequences pad_token_id prompts_ids responses_ids =
     Inr (map (\<lambda>i. fst (strip_pair pad_token_id (prompts_ids ! i) (responses_ids ! i)))
            [0..<length prompts_ids],
          map (\<lambda>i. snd (strip_pair pad_token_id (prompts_ids ! i) (responses_ids ! i)))
            [0..<length prompts_ids],
          (ids, am))" by blast
  then show ?thesis
    using assms(1) strip_pair_all_pad [OF assms(3)] by simp
qed

theorem process_sequences_empty_response_witness:
  "\<exists>p r s. process_sequences 0 [[0, 5], [3, 4]] [[0, 0], [7, 0]] = Inr (p, r, s)
           \<and> length r = 2 \<and> r ! 0 = []"
  using process_sequences_empty_response [of 0 "[[0, 5], [3, 4]]" "[[0, 0], [7, 0]]" 0]
  by (simp add: numeral_2_eq_2)

subsection \<open>Minibatches\<close>

lemma py_slice_nonneg:
  "0 \<le> a \<Longrightarrow> 0 \<le> m \<Longrightarrow> py_slice v a (a + m) = take (nat m) (drop (nat a) v)"
proof -
  assume a: "0 \<le> a" and m: "0 \<le> m"
  show ?thesis
  proof (cases "a < int (length v)")
    case True
    have "take (nat (min (a + m) (int (length v))) - nat a) (drop (nat a) v)
            = take (nat m) (drop (nat a) v)"
    proof (cases "a + m \<le> int (length v)")
      case True
      then show ?thesis using a m by (simp add: min_def nat_add_distrib)
    next
      case False
      then show ?thesis using a m True by (simp add: min_def)
    qed
    then show ?thesis using a m True
      by (simp add: py_slice_def clip_index_def Let_def min_def)
  next
    case False
    then show ?thesis using a m
      by (simp add: py_slice_def clip_index_def Let_def min_def)
  qed
qed

lemma chunks_step: "0 < mb \<Longrightarrow> 0 < n \<Longrightarrow> chunks n mb = Suc (chunks (n - mb) mb)"
proof -
  assume mb: "0 < mb" and n: "0 < n"
  have "(n + mb - 1) div mb = (n - 1) div mb + 1"
    using mb div_add_self2 [of mb "n - 1"] by (simp add: algebra_simps)
  moreover have "0 \<le> (n - 1) div mb"
    using mb n by (simp add: pos_imp_zdiv_nonneg_iff)
  ultimately show ?thesis
    by (simp add: chunks_def nat_add_distrib)
qed
lemma chunks_zero: "0 < mb \<Longrightarrow> n \<le> 0 \<Longrightarrow> chunks n mb = 0"
proof -
  assume mb: "0 < mb" and n: "n \<le> 0"
  have "(n + mb - 1) div mb \<le> (mb - 1) div mb"
    using mb n by (intro zdiv_mono1) auto
  also have "(mb - 1) div mb = 0" using mb by simp
  finally show ?thesis by (simp add: chunks_def)
qed

lemma mini_loop_eq:
  assumes "0 < mb"
  shows "mini_loop e x bs mb index acc =
     Some (acc @ map (\<lambda>j. mini_batch e x (index + int j * mb) mb) [0..<chunks (bs - index) mb])"
proof (induction "nat (bs - index)" arbitrary: index acc rule: less_induct)
  case less
  show ?case
  proof (cases "index < bs")
    case True
    have "nat (bs - (index + mb)) < nat (bs - index)" using True assms by simp
    from less [OF this] have
      "mini_loop e x bs mb (index + mb) (acc @ [mini_batch e x index mb]) =
         Some ((acc @ [mini_batch e x index mb]) @
           map (\<lambda>j. mini_batch e x (index + mb + int j * mb) mb) [0..<chunks (bs - (index + mb)) mb])" .
    moreover have "chunks (bs - index) mb = Suc (chunks (bs - (index + mb)) mb)"
      using chunks_step [of mb "bs - index"] True assms by (simp add: algebra_simps)
    ultimately show ?thesis using True
      by (subst mini_loop.simps) (simp add: map_upt_Suc algebra_simps del: upt_Suc)
  next
    case False
    then show ?thesis using assms
      by (subst mini_loop.simps) (simp add: chunks_zero)
  qed
qed

lemma mini_items_eq:
  assumes "0 < mb"
  shows "mini_items buf bs mb acc =
     Some (acc @ concat (map (\<lambda>it. map (\<lambda>j. mini_batch (item_exp it) (item_extra it) (int j * mb) mb)
                                   [0..<chunks bs mb]) buf))"
  by (induction buf arbitrary: acc) (simp_all add: mini_loop_eq [OF assms])

lemma length_concat_uniform:
  "\<forall>xs\<in>set xss. length xs = n \<Longrightarrow> length (concat xss) = length xss * n"
  by (induction xss) auto

lemma concat_uniform_nth:
  assumes "r < length xss" and "\<forall>xs\<in>set xss. length xs = n" and "j < n"
  shows "concat xss ! (r * n + j) = xss ! r ! j"
  using assms
proof (induction xss arbitrary: r)
  case Nil
  then show ?case by simp
next
  case (Cons xs xss)
  show ?case
  proof (cases r)
    case 0
    with Cons show ?thesis by (auto simp: nth_append)
  next
    case (Suc r')
    with Cons.prems have "r' < length xss" "\<forall>xs\<in>set xss. length xs = n" by auto
    from Cons.IH [OF this Cons.prems(3)] Cons.prems Suc show ?thesis
      by (auto simp: nth_append algebra_simps)
  qed
qed

lemma mini_batch_entry:
  assumes "0 \<le> index" and "0 \<le> mb" and "experience_data k = Some v"
    and "case batch_extra_data of None \<Rightarrow> True | Some extra_data \<Rightarrow> extra_data k = None"
  shows "mini_batch experience_data batch_extra_data index mb k
           = Some (take (nat mb) (drop (nat index) v))"
  using assms
  by (auto simp: mini_batch_def Let_def py_slice_nonneg map_add_def split: option.splits)

text \<open>
  C5, as stated, fails: a record of 5 examples cut into minibatches of 2 gives three
  minibatches, of 2, 2 and 1 examples. The partial minibatch is emitted, not dropped.
\<close>

theorem get_mini_dataset_partial_batch:
  "map_option (map_sum id (entries ''sequences_ids'')) (get_mini_dataset 2 example_buffer)
     = Some (Inr [Some [1, 2], Some [3, 4], Some [5]])"
  by (simp add: get_mini_dataset_def mini_loop.simps mini_batch_def py_slice_def clip_index_def
      Let_def example_buffer_def entries_def)

text \<open>
  C5, amended. For a positive minibatch size \<open>mb\<close> and a buffer whose first record has
  batch size \<open>B\<close>, \<open>get_mini_dataset\<close> returns, for every record, \<open>ceil(B / mb)\<close>
  minibatches in order; minibatch \<open>j\<close> of a record holds, for every key of the record
  that the extra batch does not override, the examples \<open>j * mb\<close> up to
  \<open>j * mb + mb\<close> of the value, cut at its end. So a minibatch has at most \<open>mb\<close>
  examples, and when \<open>B\<close> is not a multiple of \<open>mb\<close> the last minibatch of a record is
  emitted with the remaining examples, neither dropped nor padded.
\<close>

theorem get_mini_dataset_chunks:
  assumes "0 < mb"
    and "item_exp (data_buffer ! 0) ''sequences_ids'' = Some v0"
    and "r < length data_buffer"
    and "j < chunks (int (length v0)) mb"
    and "item_exp (data_buffer ! r) k = Some v"
    and "case item_extra (data_buffer ! r) of None \<Rightarrow> True | Some extra_data \<Rightarrow> extra_data k = None"
  shows "\<exists>ds. get_mini_dataset mb data_buffer = Some (Inr ds)
           \<and> length ds = length data_buffer * chunks (int (length v0)) mb
           \<and> (ds ! (r * chunks (int (length v0)) mb + j)) k
               = Some (take (nat mb) (drop (j * nat mb) v))"
proof -
  let ?n = "chunks (int (length v0)) mb"
  let ?row = "\<lambda>it. map (\<lambda>j. mini_batch (item_exp it) (item_extra it) (int j * mb) mb) [0..<?n]"
  obtain first rest where buf: "data_buffer = first # rest"
    using assms(3) by (cases data_buffer) auto
  with assms(2) have first: "item_exp first ''sequences_ids'' = Some v0" by simp
  have res: "get_mini_dataset mb data_buffer = Some (Inr (concat (map ?row data_buffer)))"
    unfolding get_mini_dataset_def buf using first
    by (simp add: mini_items_eq [OF assms(1)])
  have uni: "\<forall>xs\<in>set (map ?row data_buffer). length xs = ?n" by simp
  have len: "length (concat (map ?row data_buffer)) = length data_buffer * ?n"
    using length_concat_uniform [OF uni] by simp
  have "concat (map ?row data_buffer) ! (r * ?n + j) = map ?row data_buffer ! r ! j"
    using concat_uniform_nth [OF _ uni assms(4)] assms(3) by simp
  also have "\<dots> = mini_batch (item_exp (data_buffer ! r)) (item_extra (data_buffer ! r)) (int j * mb) mb"
    using assms(3,4) by simp
  finally have "(concat (map ?row data_buffer) ! (r * ?n + j)) k
       = Some (take (nat mb) (drop (nat (int j * mb)) v))"
    using mini_batch_entry [of "int j * mb" mb "item_exp (data_buffer ! r)" k v
        "item_extra (data_buffer ! r)"] assms(1,5,6) by simp
  moreover have "nat (int j * mb) = j * nat mb"
    using assms(1) by (simp add: nat_mult_distrib)
  ultimately show ?thesis using res len by simp
qed

theorem get_mini_dataset_chunks_witness:
  "\<exists>ds. get_mini_dataset 2
           [\<lparr>item_exp = [''sequences_ids'' \<mapsto> [1, 2, 3, 4, 5::int]], item_extra = None\<rparr>]
         = Some (Inr ds)
       \<and> length ds = 3 \<and> (ds ! 2) ''sequences_ids'' = Some [5]"
  using get_mini_dataset_chunks [of 2
      "[\<lparr>item_exp = [''sequences_ids'' \<mapsto> [1, 2, 3, 4, 5::int]], item_extra = None\<rparr>]"
      "[1, 2, 3, 4, 5]" 0 2 "''sequences_ids''" "[1, 2, 3, 4, 5]"]
  by (simp add: chunks_def numeral_2_eq_2)

subsection \<open>Elementwise operations on tensors of one shape\<close>

lemma shape2_iff: "shape2 B T x \<longleftrightarrow> length x = B \<and> (\<forall>r\<in>set x. length r = T)"
  by (simp add: shape2_def list_all_iff)

lemma shape2_nth: "shape2 B T x \<Longrightarrow> i < B \<Longrightarrow> length (x ! i) = T"
  by (simp add: shape2_iff)

lemma ew1_same: "length a = length b \<Longrightarrow> ew1 f a b = Inr (map (\<lambda>(x, y). f x y) (zip a b))"
  unfolding ew1_def bcast_def by (simp add: mapE_pure case_prod_unfold)

lemma ew2_same:
  assumes "shape2 B T a" and "shape2 B T b"
  shows "ew2 f a b = Inr (zip2 f a b)"
proof -
  have rows: "length x = length y" if "(x, y) \<in> set (zip a b)" for x y
  proof -
    from that have "x \<in> set a" and "y \<in> set b"
      by (rule set_zip_leftD, rule set_zip_rightD)
    then have "length x = T" and "length y = T"
      using assms by (auto simp: shape2_iff)
    then show ?thesis by simp
  qed
  have "mapE (\<lambda>(x, y). ew1 f x y) (zip a b)
          = Inr (map (\<lambda>(x, y). map (\<lambda>(u, v). f u v) (zip x y)) (zip a b))"
  proof (rule mapE_cong_Inr)
    fix p assume p: "p \<in> set (zip a b)"
    obtain x y where xy: "p = (x, y)" by (cases p)
    with p rows have "length x = length y" by blast
    then show "(case p of (x, y) \<Rightarrow> ew1 f x y)
                 = Inr (case p of (x, y) \<Rightarrow> map (\<lambda>(u, v). f u v) (zip x y))"
      unfolding xy by (simp add: ew1_same)
  qed
  moreover have "length a = length b"
    using assms by (simp add: shape2_iff)
  ultimately show ?thesis
    by (simp only: ew2_def bcast_def zip2_def refl if_True)
qed

lemma zip2_shape: "shape2 B T a \<Longrightarrow> shape2 B T b \<Longrightarrow> shape2 B T (zip2 f a b)"
proof -
  assume a: "shape2 B T a" and b: "shape2 B T b"
  have "length x = T \<and> length y = T" if "(x, y) \<in> set (zip a b)" for x y
    using that a b set_zip_leftD [OF that] set_zip_rightD [OF that] by (simp add: shape2_iff)
  with a b show ?thesis by (auto simp: zip2_def shape2_iff)
qed

lemma zip2_nth:
  assumes "shape2 B T a" and "shape2 B T b" and "i < B" and "t < T"
  shows "zip2 f a b ! i ! t = f (a ! i ! t) (b ! i ! t)"
proof -
  have la: "length a = B" and lb: "length b = B"
    using assms(1,2) by (simp_all add: shape2_iff)
  have ra: "length (a ! i) = T" and rb: "length (b ! i) = T"
    using assms(1,2,3) by (simp_all add: shape2_nth)
  have "zip2 f a b ! i = map (\<lambda>(u, v). f u v) (zip (a ! i) (b ! i))"
    unfolding zip2_def using la lb assms(3) by simp
  also have "\<dots> ! t = f (a ! i ! t) (b ! i ! t)"
    using ra rb assms(4) by simp
  finally show ?thesis .
qed

lemma map2_shape: "shape2 B T a \<Longrightarrow> shape2 B T (map (map g) a)"
  by (simp add: shape2_iff)

lemma to_float_shape: "shape2 B T m \<Longrightarrow> shape2 B T (to_float m)"
  by (simp add: shape2_iff to_float_def)


subsection \<open>The clipped surrogate\<close>

lemma actor_loss_terms_eq:
  assumes "shape2 B T actor_log_probs" and "shape2 B T mini_batch_actor_log_probs"
    and "shape2 B T advantages" and "shape2 B T mask'"
  shows "actor_loss_terms a actor_log_probs mini_batch_actor_log_probs advantages mask' =
     (let ratio = map (map exp)
                    (zip2 (*) (zip2 (-) mini_batch_actor_log_probs actor_log_probs) (to_float mask'));
          neg_advantages = map (map uminus) advantages
      in Inr (zip2 max (zip2 (*) neg_advantages ratio)
                (zip2 (*) neg_advantages
                   (map (map (\<lambda>r. clamp r (1 - ratio_clip a) (1 + ratio_clip a))) ratio)),
              ratio))"
proof -
  let ?diff = "zip2 (-) mini_batch_actor_log_probs actor_log_probs"
  let ?masked = "zip2 (*) ?diff (to_float mask')"
  let ?ratio = "map (map exp) ?masked"
  let ?neg = "map (map uminus) advantages"
  let ?clamped = "map (map (\<lambda>r. clamp r (1 - ratio_clip a) (1 + ratio_clip a))) ?ratio"
  have d: "shape2 B T ?diff" using assms by (intro zip2_shape)
  have m: "shape2 B T ?masked" using d assms by (intro zip2_shape to_float_shape)
  have r: "shape2 B T ?ratio" using m by (rule map2_shape)
  have n: "shape2 B T ?neg" using assms(3) by (rule map2_shape)
  have c: "shape2 B T ?clamped" using r by (rule map2_shape)
  have l1: "shape2 B T (zip2 (*) ?neg ?ratio)" using n r by (rule zip2_shape)
  have l2: "shape2 B T (zip2 (*) ?neg ?clamped)" using n c by (rule zip2_shape)
  have e1: "ew2 (-) mini_batch_actor_log_probs actor_log_probs = Inr ?diff"
    using assms(2,1) by (rule ew2_same)
  have e2: "ew2 (*) ?diff (to_float mask') = Inr ?masked"
    using d to_float_shape [OF assms(4)] by (rule ew2_same)
  have e3: "ew2 (*) ?neg ?ratio = Inr (zip2 (*) ?neg ?ratio)"
    using n r by (rule ew2_same)
  have e4: "ew2 (*) ?neg ?clamped = Inr (zip2 (*) ?neg ?clamped)"
    using n c by (rule ew2_same)
  have e5: "ew2 max (zip2 (*) ?neg ?ratio) (zip2 (*) ?neg ?clamped)
              = Inr (zip2 max (zip2 (*) ?neg ?ratio) (zip2 (*) ?neg ?clamped))"
    using l1 l2 by (rule ew2_same)
  show ?thesis
    unfolding actor_loss_terms_def e1 bindE_Inr e2 Let_def e3 e4 e5 ..
qed


lemma map2_nth:
  "shape2 B T x \<Longrightarrow> i < B \<Longrightarrow> t < T \<Longrightarrow> map (map g) x ! i ! t = g (x ! i ! t)"
  by (simp add: shape2_iff)

lemma to_float_nth:
  "shape2 B T m \<Longrightarrow> i < B \<Longrightarrow> t < T \<Longrightarrow> to_float m ! i ! t = real_of_int (m ! i ! t)"
  by (simp add: to_float_def shape2_iff)

lemma clamp_above: "hi < r \<Longrightarrow> clamp r lo hi = hi"
  by (simp add: clamp_def min_def max_def)

lemma clamp_below: "r < lo \<Longrightarrow> lo \<le> hi \<Longrightarrow> clamp r lo hi = lo"
  by (simp add: clamp_def min_def max_def)

text \<open>
  C8. For tensors of one shape, \<open>actor_loss\<close> computes at every position the ratio
  \<open>r = exp((new - old) * mask)\<close> and the term
  \<open>max(-a * r, -a * clamp(r, 1 - ratio_clip, 1 + ratio_clip))\<close>, which is at least the
  unclipped term \<open>-a * r\<close>. For a positive advantage and a ratio above
  \<open>1 + ratio_clip\<close> the term is the clipped one, \<open>-a * (1 + ratio_clip)\<close>; for a negative
  advantage and a ratio below \<open>1 - ratio_clip\<close> (with \<open>ratio_clip\<close> not negative) it is
  \<open>-a * (1 - ratio_clip)\<close>.
\<close>

theorem actor_loss_pessimistic:
  assumes "shape2 B T actor_log_probs" and "shape2 B T mini_batch_actor_log_probs"
    and "shape2 B T advantages" and "shape2 B T mask'"
    and "i < B" and "t < T"
  shows "\<exists>terms ratio.
           actor_loss_terms a actor_log_probs mini_batch_actor_log_probs advantages mask'
             = Inr (terms, ratio)
         \<and> ratio ! i ! t = exp ((mini_batch_actor_log_probs ! i ! t - actor_log_probs ! i ! t)
                                   * real_of_int (mask' ! i ! t))
         \<and> terms ! i ! t = max (- (advantages ! i ! t) * ratio ! i ! t)
                               (- (advantages ! i ! t)
                                  * clamp (ratio ! i ! t) (1 - ratio_clip a) (1 + ratio_clip a))
         \<and> - (advantages ! i ! t) * ratio ! i ! t \<le> terms ! i ! t
         \<and> (0 < advantages ! i ! t \<and> 1 + ratio_clip a < ratio ! i ! t
              \<longrightarrow> terms ! i ! t = - (advantages ! i ! t) * (1 + ratio_clip a))
         \<and> (advantages ! i ! t < 0 \<and> ratio ! i ! t < 1 - ratio_clip a \<and> 0 \<le> ratio_clip a
              \<longrightarrow> terms ! i ! t = - (advantages ! i ! t) * (1 - ratio_clip a))"
proof -
  let ?diff = "zip2 (-) mini_batch_actor_log_probs actor_log_probs"
  let ?masked = "zip2 (*) ?diff (to_float mask')"
  let ?ratio = "map (map exp) ?masked"
  let ?neg = "map (map uminus) advantages"
  let ?clamped = "map (map (\<lambda>r. clamp r (1 - ratio_clip a) (1 + ratio_clip a))) ?ratio"
  let ?terms = "zip2 max (zip2 (*) ?neg ?ratio) (zip2 (*) ?neg ?clamped)"
  define adv where "adv = advantages ! i ! t"
  define r where "r = ?ratio ! i ! t"
  define lo where "lo = 1 - ratio_clip a"
  define hi where "hi = 1 + ratio_clip a"
  have d: "shape2 B T ?diff" using assms by (intro zip2_shape)
  have m: "shape2 B T ?masked" using d assms by (intro zip2_shape to_float_shape)
  have rs: "shape2 B T ?ratio" using m by (rule map2_shape)
  have n: "shape2 B T ?neg" using assms(3) by (rule map2_shape)
  have c: "shape2 B T ?clamped" using rs by (rule map2_shape)
  have l1: "shape2 B T (zip2 (*) ?neg ?ratio)" using n rs by (rule zip2_shape)
  have l2: "shape2 B T (zip2 (*) ?neg ?clamped)" using n c by (rule zip2_shape)
  have res: "actor_loss_terms a actor_log_probs mini_batch_actor_log_probs advantages mask'
               = Inr (?terms, ?ratio)"
    using actor_loss_terms_eq [OF assms(1-4), of a] by (simp only: Let_def)
  have nv: "?neg ! i ! t = - adv"
    unfolding adv_def using map2_nth [OF assms(3,5,6)] .
  have "?masked ! i ! t = ?diff ! i ! t * to_float mask' ! i ! t"
    using zip2_nth [OF d to_float_shape [OF assms(4)] assms(5,6)] .
  also have "?diff ! i ! t = mini_batch_actor_log_probs ! i ! t - actor_log_probs ! i ! t"
    using zip2_nth [OF assms(2,1,5,6)] .
  also have "to_float mask' ! i ! t = real_of_int (mask' ! i ! t)"
    using to_float_nth [OF assms(4,5,6)] .
  finally have rv: "r = exp ((mini_batch_actor_log_probs ! i ! t - actor_log_probs ! i ! t)
                              * real_of_int (mask' ! i ! t))"
    unfolding r_def using map2_nth [OF m assms(5,6), of exp] by simp
  have cv: "?clamped ! i ! t = clamp r lo hi"
    unfolding r_def lo_def hi_def using map2_nth [OF rs assms(5,6)] .
  have "?terms ! i ! t = max (zip2 (*) ?neg ?ratio ! i ! t) (zip2 (*) ?neg ?clamped ! i ! t)"
    using zip2_nth [OF l1 l2 assms(5,6)] .
  also have "zip2 (*) ?neg ?ratio ! i ! t = - adv * r"
    using zip2_nth [OF n rs assms(5,6), of "(*)"] nv by (simp add: r_def)
  also have "zip2 (*) ?neg ?clamped ! i ! t = - adv * clamp r lo hi"
    using zip2_nth [OF n c assms(5,6), of "(*)"] nv cv by simp
  finally have tv: "?terms ! i ! t = max (- adv * r) (- adv * clamp r lo hi)" .
  have ge: "- adv * r \<le> ?terms ! i ! t" unfolding tv by simp
  have up: "?terms ! i ! t = - adv * hi" if "0 < adv" "hi < r"
  proof -
    from that have "adv * hi \<le> adv * r" by (simp add: mult_left_mono)
    with that show ?thesis unfolding tv by (simp add: clamp_above max_def)
  qed
  have dn: "?terms ! i ! t = - adv * lo" if "adv < 0" "r < lo" "0 \<le> ratio_clip a"
  proof -
    from that have "lo \<le> hi" by (simp add: lo_def hi_def)
    moreover from that have "adv * lo \<le> adv * r" by (simp add: mult_left_mono_neg)
    ultimately show ?thesis using that unfolding tv by (simp add: clamp_below max_def)
  qed
  show ?thesis
    using res rv tv ge up dn
    unfolding adv_def [symmetric] r_def [symmetric] lo_def hi_def
    by (intro exI [of _ ?terms] exI [of _ ?ratio]) (simp add: r_def adv_def)
qed


theorem actor_loss_pessimistic_witness:
  "\<exists>terms ratio.
     actor_loss_terms example_args [[0]] [[ln 2]] [[1]] [[1]] = Inr (terms, ratio)
     \<and> ratio ! 0 ! 0 = 2 \<and> terms ! 0 ! 0 = - (6 / 5) \<and> - 2 \<le> terms ! 0 ! 0"
proof -
  have sh: "shape2 1 1 [[0::real]]" "shape2 1 1 [[ln 2::real]]" "shape2 1 1 [[1::real]]"
    "shape2 1 1 [[1::int]]"
    by (simp_all add: shape2_def)
  from actor_loss_pessimistic [OF sh(1,2,3,4), of 0 0 example_args]
  obtain terms ratio where
    res: "actor_loss_terms example_args [[0]] [[ln 2]] [[1]] [[1]] = Inr (terms, ratio)"
    and r: "ratio ! 0 ! 0 = 2"
    and up: "0 < (1::real) \<and> 1 + ratio_clip example_args < ratio ! 0 ! 0
               \<longrightarrow> terms ! 0 ! 0 = - 1 * (1 + ratio_clip example_args)"
    by auto
  from r up have "terms ! 0 ! 0 = - (6 / 5)" by (simp add: example_args_def)
  with res r show ?thesis by simp
qed

subsection \<open>The weight of the extra loss\<close>

text \<open>
  C7. After the warm-up \<open>train_step\<close> does not compute what the claim states. The
  assignment \<open>extra_loss_weight_warmup = extra_loss_weight_warmup ** 1.001\<close> updates the
  variable from itself, as a weight that grows at every step would be, but the variable
  is a local that is set to the configured target at the start of every call, so the
  power is applied once to the target and never compounds. With target weight 2, ratio
  0.5 and 4 steps in all (2 warm-up steps), the weight computed at step 2 is
  \<open>2 ** 1.001\<close>, and the weight computed at step 3 is \<open>2 ** 1.001\<close> again, where the
  claim has a strictly larger weight.
\<close>

theorem extra_loss_weight_constant_after_warmup:
  "extra_loss_weight_warmup exact_product example_args 4 2 = Inr (Weight (2 powr (1001 / 1000)))
   \<and> extra_loss_weight_warmup exact_product example_args 4 3
       = Inr (Weight (2 powr (1001 / 1000)))"
  by (simp add: extra_loss_weight_warmup_def example_args_def exact_product_def py_int_def
      py_pow_def)

text \<open>
  What the code computes at every step, whatever the float product is. Below the number
  of warm-up steps the weight is the linear ramp of the claim; at every step from there
  on it is one and the same number.
\<close>

lemma extra_loss_weight_ramp:
  assumes "extra_warmup_steps_ratio a = Some ratio"
    and "0 \<le> step" and "step < py_int (fmul ratio max_steps)"
  shows "extra_loss_weight_warmup fmul a max_steps step =
           Inr (Weight (real_of_int step / real_of_int (py_int (fmul ratio max_steps))
                          * extra_loss_weight a))"
  using assms by (auto simp: extra_loss_weight_warmup_def Let_def)

lemma extra_loss_weight_after_ramp:
  assumes "extra_warmup_steps_ratio a = Some ratio"
    and "0 \<le> extra_loss_weight a" and "py_int (fmul ratio max_steps) \<le> step"
  shows "extra_loss_weight_warmup fmul a max_steps step =
           Inr (Weight (extra_loss_weight a powr (1001 / 1000)))"
  using assms by (auto simp: extra_loss_weight_warmup_def py_pow_def Let_def)

subsection \<open>Reward placement\<close>


lemma sorted_le_last:
  assumes "sorted xs" and "x \<in> set xs"
  shows "x \<le> (last xs :: nat)"
proof -
  from assms(2) obtain i where i: "i < length xs" "xs ! i = x"
    by (auto simp: in_set_conv_nth)
  then have "xs \<noteq> []" by auto
  then have "last xs = xs ! (length xs - 1)" by (rule last_conv_nth)
  moreover have "xs ! i \<le> xs ! (length xs - 1)"
    using assms(1) i(1) by (intro sorted_nth_mono) auto
  ultimately show ?thesis using i(2) by simp
qed

lemma last_nonzero_Inr_iff:
  "last_nonzero m = Inr e \<longleftrightarrow>
     e < length m \<and> m ! e \<noteq> 0 \<and> (\<forall>k<length m. e < k \<longrightarrow> m ! k = 0)"
proof -
  let ?xs = "filter (\<lambda>k. m ! k \<noteq> 0) [0..<length m]"
  have srt: "sorted ?xs" by (simp add: sorted_wrt_filter)
  have mem: "k \<in> set ?xs \<longleftrightarrow> k < length m \<and> m ! k \<noteq> 0" for k by auto
  show ?thesis
  proof (cases "?xs = []")
    case True
    then have "\<forall>k<length m. m ! k = 0"
      using mem by (metis empty_iff list.set(1))
    with True show ?thesis by (auto simp: last_nonzero_def)
  next
    case False
    then have res: "last_nonzero m = Inr (last ?xs)"
      by (simp add: last_nonzero_def split: list.splits)
    have l: "last ?xs \<in> set ?xs" using False by (rule last_in_set)
    have top: "k \<le> last ?xs" if "k \<in> set ?xs" for k
      using srt that by (rule sorted_le_last)
    show ?thesis
    proof
      assume "last_nonzero m = Inr e"
      with res have "e = last ?xs" by simp
      with l top mem show "e < length m \<and> m ! e \<noteq> 0 \<and> (\<forall>k<length m. e < k \<longrightarrow> m ! k = 0)"
        by (metis leD)
    next
      assume a: "e < length m \<and> m ! e \<noteq> 0 \<and> (\<forall>k<length m. e < k \<longrightarrow> m ! k = 0)"
      then have "e \<in> set ?xs" using mem by blast
      then have "e \<le> last ?xs" by (rule top)
      moreover have "\<not> e < last ?xs" using a l mem by blast
      ultimately show "last_nonzero m = Inr e" using res by simp
    qed
  qed
qed


lemma last_nonzero_Inl_iff:
  "(\<exists>err. last_nonzero m = Inl err) \<longleftrightarrow> (\<forall>k<length m. m ! k = 0)"
proof -
  have "(\<exists>err. last_nonzero m = Inl err) \<longleftrightarrow> filter (\<lambda>k. m ! k \<noteq> 0) [0..<length m] = []"
    by (auto simp: last_nonzero_def split: list.splits)
  also have "\<dots> \<longleftrightarrow> (\<forall>k<length m. m ! k = 0)"
    by (auto simp: filter_empty_conv)
  finally show ?thesis .
qed

lemma mapE_tabulate:
  assumes "\<And>x. x \<in> set xs \<Longrightarrow> \<exists>y. f x = Inr y"
  obtains ys where "mapE f xs = Inr ys" and "length ys = length xs"
    and "\<And>k. k < length xs \<Longrightarrow> f (xs ! k) = Inr (ys ! k)"
proof -
  have "mapE f xs = Inr (map (\<lambda>x. projr (f x)) xs)"
  proof (rule mapE_cong_Inr)
    fix x assume "x \<in> set xs"
    from assms [OF this] obtain y where y: "f x = Inr y" ..
    show "f x = Inr (projr (f x))" unfolding y by simp
  qed
  then have "mapE f xs = Inr (map (\<lambda>x. projr (f x)) xs)
      \<and> length (map (\<lambda>x. projr (f x)) xs) = length xs
      \<and> (\<forall>k<length xs. f (xs ! k) = Inr (map (\<lambda>x. projr (f x)) xs ! k))"
    unfolding mapE_Inr_iff by blast
  then show ?thesis using that [of "map (\<lambda>x. projr (f x)) xs"] by blast
qed

lemma shifted_last_nonzero:
  assumes "e < length m - 1" and "m ! Suc e \<noteq> 0"
    and "\<forall>k<length m. Suc e < k \<longrightarrow> m ! k = 0"
  shows "last_nonzero m = Inr (Suc e)" and "last_nonzero (tl m) = Inr e"
proof -
  show "last_nonzero m = Inr (Suc e)"
    using assms by (simp add: last_nonzero_Inr_iff)
  have "tl m ! k = m ! Suc k" if "k < length m - 1" for k
    using that by (simp add: nth_tl)
  with assms show "last_nonzero (tl m) = Inr e"
    by (simp add: last_nonzero_Inr_iff)
qed

lemma shifted_last_nonzero_exists:
  assumes "0 < t" and "t < length m" and "m ! t \<noteq> (0::int)"
  obtains e where "e < length m - 1" and "m ! Suc e \<noteq> 0"
    and "\<forall>k<length m. Suc e < k \<longrightarrow> m ! k = 0"
proof -
  have nth: "tl m ! k = m ! Suc k" if "k < length m - 1" for k
    using that by (simp add: nth_tl)
  from assms have "t - 1 < length (tl m)" "tl m ! (t - 1) \<noteq> 0"
    using nth [of "t - 1"] by auto
  then have "\<not> (\<exists>err. last_nonzero (tl m) = Inl err)"
    unfolding last_nonzero_Inl_iff by blast
  then obtain e where "last_nonzero (tl m) = Inr e"
    by (cases "last_nonzero (tl m)") auto
  then have e: "e < length m - 1" "tl m ! e \<noteq> 0"
    and z: "\<forall>k<length m - 1. e < k \<longrightarrow> tl m ! k = 0"
    by (simp_all add: last_nonzero_Inr_iff)
  have "m ! k = 0" if "k < length m" "Suc e < k" for k
  proof -
    from that have "k - 1 < length m - 1" "e < k - 1" by auto
    with z have "tl m ! (k - 1) = 0" by blast
    with nth [of "k - 1"] that show ?thesis by simp
  qed
  with e nth [of e] show ?thesis by (intro that [of e]) auto
qed

lemma reward_row_eq:
  assumes "length alp = length rlp" and "last_nonzero m = Inr e" and "e < length alp"
  shows "reward_row a alp rlp m score =
     (let pen = map (\<lambda>x. - kl_penalty_beta a * kl_transform (kl_penalty_method a) x)
                  (map (\<lambda>(x, y). x - y) (zip alp rlp));
          score' = (case reward_score_clip a of None \<Rightarrow> score | Some c \<Rightarrow> clamp score (- c) c)
      in Inr (pen[e := pen ! e + score'], score'))"
  using assms by (simp add: reward_row_def ew1_same Let_def)

lemma reward_row_nth:
  assumes "length alp = length rlp" and "last_nonzero m = Inr e" and "e < length alp"
    and "t < length alp"
  shows "\<exists>row s. reward_row a alp rlp m score = Inr (row, s)
           \<and> length row = length alp
           \<and> s = (case reward_score_clip a of None \<Rightarrow> score | Some c \<Rightarrow> clamp score (- c) c)
           \<and> row ! t = - kl_penalty_beta a * kl_transform (kl_penalty_method a) (alp ! t - rlp ! t)
                          + (if t = e then s else 0)"
  using assms by (simp add: reward_row_eq Let_def nth_list_update)


lemma get_last_reward_score_returns:
  assumes "shape2 B L values" and "shape2 B L responses_mask" and "0 < B"
    and "\<And>k. k < B \<Longrightarrow> \<exists>E<L. last_nonzero (responses_mask ! k) = Inr E"
  obtains rs where "get_last_reward_score values responses_mask = Inr rs"
    and "length rs = B"
    and "\<And>k E. k < B \<Longrightarrow> last_nonzero (responses_mask ! k) = Inr E \<Longrightarrow> rs ! k = values ! k ! E"
proof -
  let ?body = "\<lambda>i. let value = values ! i
                 in bindE (idx responses_mask i) (\<lambda>row.
                    bindE (last_nonzero row) (\<lambda>end_index. idx value end_index))"
  have lv: "length values = B" and lm: "length responses_mask = B"
    using assms(1,2) by (simp_all add: shape2_iff)
  have body: "?body k = Inr (values ! k ! E)"
    if "k < B" "last_nonzero (responses_mask ! k) = Inr E" "E < L" for k E
    using that lm shape2_nth [OF assms(1) that(1)] by (simp add: idx_def Let_def)
  have "\<exists>y. ?body x = Inr y" if "x \<in> set [0..<length values]" for x
  proof -
    from that lv have "x < B" by simp
    from assms(4) [OF this] obtain E where "E < L" "last_nonzero (responses_mask ! x) = Inr E"
      by blast
    with body [OF \<open>x < B\<close>] show ?thesis by blast
  qed
  from mapE_tabulate [of "[0..<length values]" ?body, OF this]
  obtain rs where rs: "mapE ?body [0..<length values] = Inr rs"
    and len: "length rs = length [0..<length values]"
    and nth: "\<And>k. k < length [0..<length values] \<Longrightarrow> ?body ([0..<length values] ! k) = Inr (rs ! k)"
    by blast
  have len': "length rs = B" using len lv by simp
  have "rs ! k = values ! k ! E" if "k < B" "last_nonzero (responses_mask ! k) = Inr E" for k E
  proof -
    from assms(4) [OF that(1)] that(2) have "E < L" by auto
    from body [OF that this] nth [of k] that(1) lv show ?thesis by simp
  qed
  moreover have "get_last_reward_score values responses_mask = Inr rs"
    unfolding get_last_reward_score_def rs using len' assms(3)
    by (auto simp: stack_scalars_def)
  ultimately show ?thesis using len' by (intro that [of rs])
qed


text \<open>
  C1, as stated, fails: the response mask \<open>[1, 0]\<close> has a nonzero position, but the
  shifted mask \<open>responses_mask[:, 1:] = [0]\<close> has none, and the function raises at
  \<open>mask.nonzero()[-1]\<close> instead of producing a reward series.
\<close>

theorem compute_rewards_first_position_only:
  "compute_rewards_with_kl_penalty example_args [[5, 7]] [[0]] [[0]] [[1, 0]] = Inl IndexError"
  by (simp add: compute_rewards_with_kl_penalty_def get_last_reward_score_def last_nonzero_def
      idx_def stack_scalars_def reward_row_def ew1_def bcast_def Let_def)

text \<open>
  C1, amended. For every batch of well-shaped tensors in which every example's shifted
  mask \<open>responses_mask[:, 1:]\<close> has at least one nonzero position,
  \<open>compute_rewards_with_kl_penalty\<close> returns, and the per-token reward series of example
  \<open>i\<close> equals \<open>-kl_penalty_beta * f(actor_log_prob - ref_log_prob)\<close> at every
  position, where \<open>f\<close> is the absolute value for method \<open>abs\<close>, \<open>0.5 * kl^2\<close> for
  \<open>mse\<close> and the identity otherwise, except at the last index \<open>e\<close> where the shifted
  mask is nonzero, where the score is added. The score is the reference value at index
  \<open>e + 1\<close> (the last nonzero index of the unshifted mask), clamped to
  \<open>[-reward_score_clip, reward_score_clip]\<close> when a clip is configured. No other
  position receives any part of the score.
\<close>

theorem compute_rewards_with_kl_penalty_spec:
  assumes "shape2 B L ref_values" and "shape2 B L responses_mask"
    and "shape2 B (L - 1) actor_log_probs" and "shape2 B (L - 1) ref_log_probs"
    and "\<forall>k<B. \<exists>t. 0 < t \<and> t < L \<and> responses_mask ! k ! t \<noteq> 0"
    and "i < B"
    and "e < L - 1" and "responses_mask ! i ! Suc e \<noteq> 0"
    and "\<forall>k<L. Suc e < k \<longrightarrow> responses_mask ! i ! k = 0"
    and "t < L - 1"
  shows "\<exists>rewards kl_all scores.
           compute_rewards_with_kl_penalty a ref_values actor_log_probs ref_log_probs responses_mask
             = Inr (rewards, kl_all, scores)
         \<and> scores ! i = (case reward_score_clip a of
                             None \<Rightarrow> ref_values ! i ! Suc e
                           | Some c \<Rightarrow> clamp (ref_values ! i ! Suc e) (- c) c)
         \<and> rewards ! i ! t =
               - kl_penalty_beta a
                   * kl_transform (kl_penalty_method a)
                       (actor_log_probs ! i ! t - ref_log_probs ! i ! t)
               + (if t = e then scores ! i else 0)"
proof -
  have lm: "length responses_mask = B" and la: "length actor_log_probs = B"
    and lr: "length ref_log_probs = B"
    using assms(2,3,4) by (simp_all add: shape2_iff)
  have rowlen: "length (responses_mask ! k) = L" "length (actor_log_probs ! k) = L - 1"
    "length (ref_log_probs ! k) = L - 1" if "k < B" for k
    using that assms(2,3,4) by (simp_all add: shape2_nth)
  have B: "0 < B" using assms(6) by simp
  \<comment> \<open>the last nonzero index of every row, shifted and unshifted\<close>
  have ends: "\<exists>ek<L - 1. last_nonzero (responses_mask ! k) = Inr (Suc ek)
                 \<and> last_nonzero (tl (responses_mask ! k)) = Inr ek" if "k < B" for k
  proof -
    from assms(5) that obtain t' where "0 < t'" "t' < L" "responses_mask ! k ! t' \<noteq> 0"
      by blast
    with rowlen(1) [OF that] obtain ek where "ek < length (responses_mask ! k) - 1"
      "responses_mask ! k ! Suc ek \<noteq> 0"
      "\<forall>j<length (responses_mask ! k). Suc ek < j \<longrightarrow> responses_mask ! k ! j = 0"
      using shifted_last_nonzero_exists [of t' "responses_mask ! k"] by metis
    from shifted_last_nonzero [OF this] this(1) rowlen(1) [OF that] show ?thesis by auto
  qed
  have end_i: "last_nonzero (responses_mask ! i) = Inr (Suc e)"
    "last_nonzero (tl (responses_mask ! i)) = Inr e"
    using shifted_last_nonzero [of e "responses_mask ! i"] assms(7,8,9) rowlen(1) [OF assms(6)]
    by simp_all
  \<comment> \<open>the scores\<close>
  have "\<exists>E<L. last_nonzero (responses_mask ! k) = Inr E" if "k < B" for k
  proof -
    from ends [OF that] obtain ek where ek: "ek < L - 1"
      "last_nonzero (responses_mask ! k) = Inr (Suc ek)" by blast
    from ek(1) have "Suc ek < L" by simp
    with ek(2) show ?thesis by blast
  qed
  from get_last_reward_score_returns [OF assms(1,2) B this]
  obtain rs where rs: "get_last_reward_score ref_values responses_mask = Inr rs"
    and lrs: "length rs = B"
    and rsn: "\<And>k E. k < B \<Longrightarrow> last_nonzero (responses_mask ! k) = Inr E
                 \<Longrightarrow> rs ! k = ref_values ! k ! E"
    by blast
  have rsi: "rs ! i = ref_values ! i ! Suc e"
    using rsn [OF assms(6) end_i(1)] .
  \<comment> \<open>the loop over the batch\<close>
  let ?masks = "map tl responses_mask"
  let ?body = "\<lambda>i. bindE (idx ?masks i) (\<lambda>mask'.
                  bindE (idx actor_log_probs i) (\<lambda>alp.
                  bindE (idx ref_log_probs i) (\<lambda>rlp.
                  reward_row a alp rlp mask' (rs ! i))))"
  have body: "?body k = reward_row a (actor_log_probs ! k) (ref_log_probs ! k)
                          (tl (responses_mask ! k)) (rs ! k)" if "k < B" for k
    using that lm la lr by (simp add: idx_def)
  have row: "\<exists>row s. ?body k = Inr (row, s) \<and> length row = L - 1
       \<and> s = (case reward_score_clip a of None \<Rightarrow> rs ! k | Some c \<Rightarrow> clamp (rs ! k) (- c) c)
       \<and> row ! t = - kl_penalty_beta a * kl_transform (kl_penalty_method a)
                        (actor_log_probs ! k ! t - ref_log_probs ! k ! t)
                    + (if t = ek then s else 0)"
    if "k < B" "last_nonzero (tl (responses_mask ! k)) = Inr ek" "ek < L - 1" for k ek
    using reward_row_nth [of "actor_log_probs ! k" "ref_log_probs ! k" "tl (responses_mask ! k)"
        ek t a "rs ! k"] that rowlen(2,3) [OF that(1)] assms(10)
    unfolding body [OF that(1)] by simp
  have "\<exists>y. ?body x = Inr y" if "x \<in> set [0..<length rs]" for x
  proof -
    from that lrs have "x < B" by simp
    from ends [OF this] row [OF this] show ?thesis by blast
  qed
  from mapE_tabulate [of "[0..<length rs]" ?body, OF this]
  obtain rows where rows: "mapE ?body [0..<length rs] = Inr rows"
    and lrows: "length rows = length [0..<length rs]"
    and rown: "\<And>k. k < length [0..<length rs] \<Longrightarrow> ?body ([0..<length rs] ! k) = Inr (rows ! k)"
    by blast
  have lrows': "length rows = B" using lrows lrs by simp
  have rowk: "?body k = Inr (rows ! k)" if "k < B" for k
    using rown [of k] that lrs by simp
  have flen: "length (fst (rows ! k)) = L - 1" if "k < B" for k
  proof -
    from ends [OF that] obtain ek where "ek < L - 1"
      "last_nonzero (tl (responses_mask ! k)) = Inr ek" by blast
    from row [OF that this(2,1)] rowk [OF that] show ?thesis by auto
  qed
  have "same_len (map fst rows)"
    unfolding same_len_iff
  proof
    fix r assume "r \<in> set (map fst rows)"
    then obtain k where "k < B" "r = fst (rows ! k)"
      using lrows' by (auto simp: in_set_conv_nth)
    moreover have "hd (map fst rows) = fst (rows ! 0)"
      using B lrows' by (cases rows) auto
    ultimately show "length r = length (hd (map fst rows))"
      using flen [of k] flen [of 0] B by simp
  qed
  moreover have "map fst rows \<noteq> []" using B lrows' by auto
  ultimately have st: "torch_stack (map fst rows) = Inr (map fst rows)"
    by (simp add: torch_stack_def)
  have res: "compute_rewards_with_kl_penalty a ref_values actor_log_probs ref_log_probs
               responses_mask = Inr (map fst rows, map fst rows, map snd rows)"
    unfolding compute_rewards_with_kl_penalty_def Let_def rs bindE_Inr rows st ..
  from row [OF assms(6) end_i(2) assms(7)] rowk [OF assms(6)]
  have "snd (rows ! i) = (case reward_score_clip a of
                             None \<Rightarrow> rs ! i | Some c \<Rightarrow> clamp (rs ! i) (- c) c)"
    and "fst (rows ! i) ! t = - kl_penalty_beta a * kl_transform (kl_penalty_method a)
                        (actor_log_probs ! i ! t - ref_log_probs ! i ! t)
                    + (if t = e then snd (rows ! i) else 0)"
    by auto
  with res rsi assms(6) lrows' show ?thesis by (simp split: option.splits)
qed


theorem compute_rewards_with_kl_penalty_spec_witness:
  "\<exists>rewards kl_all scores.
     compute_rewards_with_kl_penalty example_args [[5, 7, 9], [1, 2, 3]] [[1, 2], [0, 0]]
       [[0, 0], [3, 4]] [[0, 1, 0], [0, 1, 1]] = Inr (rewards, kl_all, scores)
     \<and> scores ! 0 = 7 \<and> rewards ! 0 ! 0 = 69 / 10 \<and> rewards ! 0 ! 1 = - (1 / 5)"
proof -
  let ?V = "[[5, 7, 9], [1, 2, 3]] :: real list list"
  let ?A = "[[1, 2], [0, 0]] :: real list list"
  let ?R = "[[0, 0], [3, 4]] :: real list list"
  let ?M = "[[0, 1, 0], [0, 1, 1]] :: int list list"
  have sh: "shape2 2 3 ?V" "shape2 2 3 ?M" "shape2 2 (3 - 1) ?A" "shape2 2 (3 - 1) ?R"
    by (simp_all add: shape2_def)
  have nz: "\<forall>k<2. \<exists>t. 0 < t \<and> t < 3 \<and> ?M ! k ! t \<noteq> 0"
  proof (intro allI impI)
    fix k :: nat assume "k < 2"
    then have "k = 0 \<or> k = 1" by auto
    then have "0 < (1::nat) \<and> (1::nat) < 3 \<and> ?M ! k ! 1 \<noteq> 0" by auto
    then show "\<exists>t. 0 < t \<and> t < 3 \<and> ?M ! k ! t \<noteq> 0" by blast
  qed
  have lastz: "\<forall>k<3. Suc 0 < k \<longrightarrow> ?M ! 0 ! k = 0"
  proof (intro allI impI)
    fix k :: nat assume "k < 3" "Suc 0 < k"
    then have "k = 2" by auto
    then show "?M ! 0 ! k = 0" by simp
  qed
  have i: "(0::nat) < 2" and e: "(0::nat) < 3 - 1" and ne: "?M ! 0 ! Suc 0 \<noteq> 0"
    and t1: "(1::nat) < 3 - 1"
    by simp_all
  from compute_rewards_with_kl_penalty_spec [OF sh nz i e ne lastz e, of example_args]
  obtain rewards kl_all scores where
    res: "compute_rewards_with_kl_penalty example_args ?V ?A ?R ?M = Inr (rewards, kl_all, scores)"
    and sc: "scores ! 0 = 7" and r0: "rewards ! 0 ! 0 = 69 / 10"
    by (auto simp: example_args_def kl_transform_def)
  from compute_rewards_with_kl_penalty_spec [OF sh nz i e ne lastz t1, of example_args] res
  have "rewards ! 0 ! 1 = - (1 / 5)"
    by (auto simp: example_args_def kl_transform_def)
  with res sc r0 show ?thesis by blast
qed

subsection \<open>Generalized advantage estimation\<close>

lemma ncols_shape: "shape2 B T x \<Longrightarrow> 0 < B \<Longrightarrow> ncols x = T"
  by (cases x) (auto simp: ncols_def shape2_iff)

lemma column_eq:
  "shape2 B T x \<Longrightarrow> 0 < B \<Longrightarrow> t < T \<Longrightarrow> column x t = Inr (map (\<lambda>i. x ! i ! t) [0..<B])"
  by (simp add: column_def ncols_shape) (simp add: shape2_iff)

lemma zip_tabulate:
  "map (\<lambda>(x, y). f x y) (zip (map g xs) (map h xs)) = map (\<lambda>i. f (g i) (h i)) xs"
  by (induction xs) auto

lemma ew1_tabulate:
  "ew1 f (map g [0..<B]) (map h [0..<B]) = Inr (map (\<lambda>i. f (g i) (h i)) [0..<B])"
  by (simp add: ew1_same zip_tabulate)

lemma gae_col_step:
  assumes "shape2 B T rewards" and "n < T"
  shows "gae_col a values rewards B n =
     map (\<lambda>i. rewards ! i ! n + gamma a * (if n + 1 < T then values ! i ! (n + 1) else 0)
                 - values ! i ! n
               + gamma a * lam a * gae_at (gamma a) (lam a) (rewards ! i) (values ! i) (n + 1))
       [0..<B]"
  unfolding gae_col_def
proof (rule map_cong [OF refl])
  fix i assume "i \<in> set [0..<B]"
  then have "length (rewards ! i) = T" using assms(1) by (simp add: shape2_nth)
  with assms(2)
  show "gae_at (gamma a) (lam a) (rewards ! i) (values ! i) n =
          rewards ! i ! n + gamma a * (if n + 1 < T then values ! i ! (n + 1) else 0)
            - values ! i ! n
          + gamma a * lam a * gae_at (gamma a) (lam a) (rewards ! i) (values ! i) (n + 1)"
    by (subst gae_at.simps) simp
qed

lemma gae_col_end:
  assumes "shape2 B T rewards"
  shows "gae_col a values rewards B T = replicate B 0"
proof -
  have "gae_col a values rewards B T = map (\<lambda>i. 0) [0..<B]"
    unfolding gae_col_def
  proof (rule map_cong [OF refl])
    fix i assume "i \<in> set [0..<B]"
    then have "length (rewards ! i) = T" using assms by (simp add: shape2_nth)
    then show "gae_at (gamma a) (lam a) (rewards ! i) (values ! i) T = 0"
      by (subst gae_at.simps) simp
  qed
  then show ?thesis by (simp add: map_replicate_const)
qed

lemma gae_loop_step:
  assumes "shape2 B T values" and "shape2 B T rewards" and "0 < B" and "n < T"
  shows "gae_loop a values rewards T (n # ts) (gae_col a values rewards B (n + 1)) acc =
           gae_loop a values rewards T ts (gae_col a values rewards B n)
             (acc @ [gae_col a values rewards B n])"
proof -
  have lr: "length rewards = B" using assms(2) by (simp add: shape2_iff)
  let ?nv = "map (\<lambda>i. if n + 1 < T then values ! i ! (n + 1) else 0) [0..<B]"
  have nv: "(if n < T - 1 then column values (n + 1) else Inr (replicate (length rewards) 0))
              = Inr ?nv"
  proof (cases "n + 1 < T")
    case True
    then have "n < T - 1" by arith
    with True show ?thesis using column_eq [OF assms(1,3), of "n + 1"] by simp
  next
    case False
    then have "\<not> n < T - 1" by arith
    with False show ?thesis using lr by (simp add: map_replicate_const)
  qed
  have rt: "column rewards n = Inr (map (\<lambda>i. rewards ! i ! n) [0..<B])"
    using assms(2,3,4) by (rule column_eq)
  have vt: "column values n = Inr (map (\<lambda>i. values ! i ! n) [0..<B])"
    using assms(1,3,4) by (rule column_eq)
  have last: "map (\<lambda>x. gamma a * lam a * x) (gae_col a values rewards B (n + 1))
      = map (\<lambda>i. gamma a * lam a * gae_at (gamma a) (lam a) (rewards ! i) (values ! i) (n + 1))
          [0..<B]"
    by (simp add: gae_col_def)
  show ?thesis
    unfolding gae_loop.simps nv bindE_Inr rt vt map_map comp_def ew1_tabulate last
    unfolding gae_col_step [OF assms(2,4), of a "values"] ..
qed

lemma gae_loop_eq:
  assumes "shape2 B T values" and "shape2 B T rewards" and "0 < B" and "n \<le> T"
  shows "gae_loop a values rewards T (rev [0..<n]) (gae_col a values rewards B n) acc =
           Inr (acc @ map (gae_col a values rewards B) (rev [0..<n]))"
  using assms(4)
proof (induction n arbitrary: acc)
  case 0
  then show ?case by simp
next
  case (Suc n)
  then have "n < T" "n \<le> T" by simp_all
  from gae_loop_step [OF assms(1,2,3) this(1), of a "rev [0..<n]" acc] Suc.IH [OF this(2)]
  show ?case by simp
qed


lemma gae_tensor_shape: "shape2 B T (gae_tensor a values rewards B T)"
  by (simp add: gae_tensor_def shape2_iff)

lemma gae_tensor_nth:
  "i < B \<Longrightarrow> t < T \<Longrightarrow> gae_tensor a values rewards B T ! i ! t
     = gae_at (gamma a) (lam a) (rewards ! i) (values ! i) t"
  by (simp add: gae_tensor_def)

lemma transpose_gae_cols:
  assumes "0 < T"
  shows "transpose01 (map (gae_col a values rewards B) [0..<T]) = gae_tensor a values rewards B T"
proof -
  have "hd (map (gae_col a values rewards B) [0..<T]) = gae_col a values rewards B 0"
    using assms by (simp add: hd_map upt_conv_Cons del: upt_Suc)
  then have len: "length (hd (map (gae_col a values rewards B) [0..<T])) = B"
    by (simp add: gae_col_def)
  have "map (\<lambda>i. map (\<lambda>c. c ! i) (map (gae_col a values rewards B) [0..<T])) [0..<B]
          = gae_tensor a values rewards B T"
    unfolding gae_tensor_def
  proof (rule map_cong [OF refl])
    fix i assume "i \<in> set [0..<B]"
    then have "i < B" by simp
    then show "map (\<lambda>c. c ! i) (map (gae_col a values rewards B) [0..<T])
                = map (gae_at (gamma a) (lam a) (rewards ! i) (values ! i)) [0..<T]"
      by (simp add: gae_col_def)
  qed
  then show ?thesis unfolding transpose01_def len .
qed

lemma stack_gae_cols:
  assumes "0 < T"
  shows "torch_stack (map (gae_col a values rewards B) [0..<T])
           = Inr (map (gae_col a values rewards B) [0..<T])"
proof -
  have "same_len (map (gae_col a values rewards B) [0..<T])"
    using assms by (simp add: same_len_iff gae_col_def hd_map upt_conv_Cons del: upt_Suc)
  moreover have "map (gae_col a values rewards B) [0..<T] \<noteq> []"
    using assms by simp
  ultimately show ?thesis by (simp add: torch_stack_def)
qed

lemma get_advantages_and_returns_eq:
  assumes "shape2 B T values" and "shape2 B T rewards" and "0 < B" and "0 < T"
  shows "get_advantages_and_returns a values rewards responses_mask =
     (if use_advantage_norm a
      then bindE (masked_whiten (gae_tensor a values rewards B T) (map tl responses_mask) True)
             (\<lambda>advantages'. Inr (advantages', zip2 (+) (gae_tensor a values rewards B T) values))
      else Inr (Finite (gae_tensor a values rewards B T),
                zip2 (+) (gae_tensor a values rewards B T) values))"
proof -
  have nc: "ncols rewards = T" using assms(2,3) by (rule ncols_shape)
  have lr: "length rewards = B" using assms(2) by (simp add: shape2_iff)
  have loop: "gae_loop a values rewards T (rev [0..<T]) (replicate B 0) []
                = Inr (map (gae_col a values rewards B) (rev [0..<T]))"
    using gae_loop_eq [OF assms(1,2,3), of T a "[]"] gae_col_end [OF assms(2), of a "values"]
    by simp
  have rv: "rev (map (gae_col a values rewards B) (rev [0..<T]))
              = map (gae_col a values rewards B) [0..<T]"
    by (simp add: rev_map)
  have ret: "ew2 (+) (gae_tensor a values rewards B T) values
               = Inr (zip2 (+) (gae_tensor a values rewards B T) values)"
    using gae_tensor_shape assms(1) by (rule ew2_same)
  show ?thesis
    unfolding get_advantages_and_returns_def Let_def nc lr loop bindE_Inr rv
      stack_gae_cols [OF assms(4)] transpose_gae_cols [OF assms(4)] ret ..
qed


lemma gae_monte_carlo:
  "t < length rs \<Longrightarrow> gae_at 1 1 rs vs t + vs ! t = sum_list (drop t rs)"
proof (induction "length rs - t" arbitrary: t)
  case 0
  then show ?case by simp
next
  case (Suc k)
  have step: "gae_at 1 1 rs vs t
      = rs ! t + (if t + 1 < length rs then vs ! (t + 1) else 0) - vs ! t
          + gae_at 1 1 rs vs (t + 1)"
    using Suc.prems by (subst gae_at.simps) simp
  have dr: "sum_list (drop t rs) = rs ! t + sum_list (drop (t + 1) rs)"
    using Suc.prems by (simp add: Cons_nth_drop_Suc [symmetric])
  show ?case
  proof (cases "t + 1 < length rs")
    case True
    moreover from Suc.hyps(2) have "k = length rs - (t + 1)" by simp
    ultimately have "gae_at 1 1 rs vs (t + 1) + vs ! (t + 1) = sum_list (drop (t + 1) rs)"
      by (rule Suc.hyps(1) [rotated])
    with step dr True show ?thesis by simp
  next
    case False
    then have "gae_at 1 1 rs vs (t + 1) = 0" by (subst gae_at.simps) simp
    with step dr False show ?thesis by simp
  qed
qed

lemma masked_whiten_returns:
  assumes "shape2 B T data" and "shape2 B T mask'"
  shows "\<exists>w. masked_whiten data mask' shift_mean = Inr w"
proof -
  let ?mean = "tsum data / real_of_int (isum mask')"
  have "ew2 (*) (map (map (\<lambda>x. x ^ 2)) (map (map (\<lambda>x. x - ?mean)) data)) (to_float mask')
          = Inr (zip2 (*) (map (map (\<lambda>x. x ^ 2)) (map (map (\<lambda>x. x - ?mean)) data))
                   (to_float mask'))"
    using assms by (intro ew2_same [of B T] map2_shape to_float_shape)
  then show ?thesis
    unfolding masked_whiten_def Let_def by simp
qed

lemma shape2_tl: "shape2 B (T + 1) x \<Longrightarrow> shape2 B T (map tl x)"
  by (simp add: shape2_iff)

text \<open>
  C2. For rewards and values of one shape \<open>[B, T]\<close> (and, when advantage normalization
  is enabled, a response mask of shape \<open>[B, T + 1]\<close>), \<open>get_advantages_and_returns\<close>
  returns; the estimate \<open>gae_t\<close> it computes satisfies
  \<open>gae_t = reward_t + gamma * value_{t+1} - value_t + gamma * lam * gae_{t+1}\<close> with the
  value and the estimate after the last step taken as 0; the returns are
  \<open>gae_t + value_t\<close>; without normalization the returned advantages are the estimates;
  and with \<open>gamma = 1\<close> and \<open>lam = 1\<close> the return at \<open>t\<close> is the sum of the rewards from
  \<open>t\<close> to the end.
\<close>

theorem get_advantages_and_returns_gae:
  assumes "shape2 B T values" and "shape2 B T rewards"
    and "use_advantage_norm a \<longrightarrow> shape2 B (T + 1) responses_mask"
    and "i < B" and "t < T"
  shows "\<exists>adv ret.
           get_advantages_and_returns a values rewards responses_mask = Inr (adv, ret)
         \<and> (\<not> use_advantage_norm a \<longrightarrow> adv = Finite (gae_tensor a values rewards B T))
         \<and> gae_tensor a values rewards B T ! i ! t =
               rewards ! i ! t + gamma a * (if t + 1 < T then values ! i ! (t + 1) else 0)
                 - values ! i ! t
               + gamma a * lam a
                   * (if t + 1 < T then gae_tensor a values rewards B T ! i ! (t + 1) else 0)
         \<and> ret ! i ! t = gae_tensor a values rewards B T ! i ! t + values ! i ! t
         \<and> (gamma a = 1 \<and> lam a = 1 \<longrightarrow> ret ! i ! t = sum_list (drop t (rewards ! i)))"
proof -
  let ?G = "gae_tensor a values rewards B T"
  have B: "0 < B" and T: "0 < T" using assms(4,5) by simp_all
  have lri: "length (rewards ! i) = T" using assms(2,4) by (rule shape2_nth)
  have eq: "get_advantages_and_returns a values rewards responses_mask =
     (if use_advantage_norm a
      then bindE (masked_whiten ?G (map tl responses_mask) True)
             (\<lambda>advantages'. Inr (advantages', zip2 (+) ?G values))
      else Inr (Finite ?G, zip2 (+) ?G values))"
    using assms(1,2) B T by (rule get_advantages_and_returns_eq)
  have res: "\<exists>adv. get_advantages_and_returns a values rewards responses_mask
                     = Inr (adv, zip2 (+) ?G values)
               \<and> (\<not> use_advantage_norm a \<longrightarrow> adv = Finite ?G)"
  proof (cases "use_advantage_norm a")
    case True
    with assms(3) have "shape2 B T (map tl responses_mask)" by (simp add: shape2_tl)
    from masked_whiten_returns [OF gae_tensor_shape this, of a "values" rewards True]
    obtain w where "masked_whiten ?G (map tl responses_mask) True = Inr w" ..
    with eq True show ?thesis by simp
  next
    case False
    with eq show ?thesis by simp
  qed
  have ret: "zip2 (+) ?G values ! i ! t = ?G ! i ! t + values ! i ! t"
    using gae_tensor_shape assms(1,4,5) by (rule zip2_nth)
  have g: "?G ! i ! t = gae_at (gamma a) (lam a) (rewards ! i) (values ! i) t"
    using assms(4,5) by (rule gae_tensor_nth)
  have g': "?G ! i ! (t + 1) = gae_at (gamma a) (lam a) (rewards ! i) (values ! i) (t + 1)"
    if "t + 1 < T"
    using assms(4) that by (rule gae_tensor_nth)
  have last: "gae_at (gamma a) (lam a) (rewards ! i) (values ! i) (t + 1) = 0"
    if "\<not> t + 1 < T"
    using that lri by (subst gae_at.simps) simp
  have rec: "?G ! i ! t =
               rewards ! i ! t + gamma a * (if t + 1 < T then values ! i ! (t + 1) else 0)
                 - values ! i ! t
               + gamma a * lam a * (if t + 1 < T then ?G ! i ! (t + 1) else 0)"
    unfolding g using lri assms(5) g' last
    by (subst gae_at.simps) (simp del: One_nat_def)
  have mc: "zip2 (+) ?G values ! i ! t = sum_list (drop t (rewards ! i))"
    if "gamma a = 1" "lam a = 1"
    unfolding ret g that using gae_monte_carlo [of t "rewards ! i" "values ! i"] lri assms(5)
    by simp
  from res obtain adv where
    "get_advantages_and_returns a values rewards responses_mask = Inr (adv, zip2 (+) ?G values)"
    "\<not> use_advantage_norm a \<longrightarrow> adv = Finite ?G" by blast
  with rec ret mc show ?thesis by blast
qed


theorem get_advantages_and_returns_gae_witness:
  "\<exists>adv ret.
     get_advantages_and_returns example_args [[1, 2, 3], [0, 0, 1]] [[- 2, 3, 4], [1, 1, 1]]
       [[0, 1, 1, 7], [0, 0, 0, 0]] = Inr (adv, ret)
     \<and> ret ! 0 ! 1 = 7"
proof -
  have sh: "shape2 2 3 [[1, 2, 3], [0, 0, 1 :: real]]" "shape2 2 3 [[- 2, 3, 4], [1, 1, 1 :: real]]"
    by (simp_all add: shape2_def)
  have nrm: "use_advantage_norm example_args
               \<longrightarrow> shape2 2 (3 + 1) [[0, 1, 1, 7], [0, 0, 0, 0 :: int]]"
    by (simp add: example_args_def)
  have i: "(0::nat) < 2" and t: "(1::nat) < 3" by simp_all
  from get_advantages_and_returns_gae [OF sh nrm i t]
  show ?thesis by (auto simp: example_args_def)
qed






subsection \<open>Whitening\<close>

lemma tsum_nth: "shape2 B T x \<Longrightarrow> tsum x = (\<Sum>i<B. \<Sum>t<T. x ! i ! t)"
proof -
  assume sh: "shape2 B T x"
  have row: "sum_list r = (\<Sum>t<T. r ! t)" if "length r = T" for r :: "real list"
    using that by (simp add: sum_list_sum_nth atLeast0LessThan)
  have "tsum x = (\<Sum>i<length x. sum_list (x ! i))"
    by (simp add: tsum_def sum_list_sum_nth atLeast0LessThan)
  also have "\<dots> = (\<Sum>i<B. \<Sum>t<T. x ! i ! t)"
    using sh by (intro sum.cong) (auto simp: shape2_iff row)
  finally show ?thesis .
qed

lemma isum_nth: "shape2 B T x \<Longrightarrow> real_of_int (isum x) = (\<Sum>i<B. \<Sum>t<T. real_of_int (x ! i ! t))"
proof -
  assume sh: "shape2 B T x"
  have "real_of_int (isum x) = tsum (to_float x)"
    by (induction x) (simp_all add: isum_def tsum_def to_float_def sum_list_of_int)
  also have "\<dots> = (\<Sum>i<B. \<Sum>t<T. to_float x ! i ! t)"
    using to_float_shape [OF sh] by (rule tsum_nth)
  also have "\<dots> = (\<Sum>i<B. \<Sum>t<T. real_of_int (x ! i ! t))"
    using sh by (intro sum.cong refl) (simp add: to_float_nth)
  finally show ?thesis .
qed



lemma tsum_weighted:
  assumes "shape2 B T x" and "shape2 B T m"
  shows "tsum (zip2 (*) (map (map g) x) (to_float m)) = wsum g x m B T"
proof -
  have sh: "shape2 B T (zip2 (*) (map (map g) x) (to_float m))"
    using assms by (intro zip2_shape map2_shape to_float_shape)
  have "zip2 (*) (map (map g) x) (to_float m) ! i ! t = g (x ! i ! t) * real_of_int (m ! i ! t)"
    if "i < B" "t < T" for i t
    using zip2_nth [OF map2_shape [OF assms(1), of g] to_float_shape [OF assms(2)] that,
        where f = "(*)"]
      map2_nth [OF assms(1) that, where g = g] to_float_nth [OF assms(2) that]
    by simp
  then show ?thesis
    unfolding tsum_nth [OF sh] wsum_def by (intro sum.cong refl) simp
qed

lemma tsum_weighted_id:
  assumes "shape2 B T x" and "shape2 B T m"
  shows "tsum (zip2 (*) x (to_float m)) = wsum (\<lambda>x. x) x m B T"
  using tsum_weighted [OF assms, of "\<lambda>x. x"] by simp

lemma wsum_lin:
  "wsum (\<lambda>x. a * g x + b * h x) x m B T = a * wsum g x m B T + b * wsum h x m B T"
  by (simp add: wsum_def algebra_simps sum.distrib sum_distrib_left)

lemma wsum_one:
  assumes "shape2 B T m"
  shows "wsum (\<lambda>x. 1) x m B T = real_of_int (isum m)"
  by (simp add: wsum_def isum_nth [OF assms])

lemma wsum_nonneg:
  assumes "\<forall>i<B. \<forall>t<T. 0 \<le> m ! i ! t" and "\<And>x. 0 \<le> g x"
  shows "0 \<le> wsum g x m B T"
  unfolding wsum_def using assms by (intro sum_nonneg mult_nonneg_nonneg) auto

lemma wsum_zero_outside:
  assumes "shape2 B T x"
    and "\<forall>i<B. \<forall>t<T. m ! i ! t = 0 \<or> m ! i ! t = 1"
    and "\<forall>i<B. \<forall>t<T. m ! i ! t = 0 \<longrightarrow> x ! i ! t = 0"
  shows "wsum (\<lambda>x. x) x m B T = tsum x"
proof -
  have "x ! i ! t * real_of_int (m ! i ! t) = x ! i ! t" if "i < B" "t < T" for i t
    using assms(2,3) that by (metis mult_zero_left of_int_1 mult.right_neutral)
  then show ?thesis
    unfolding tsum_nth [OF assms(1)] wsum_def by (intro sum.cong refl) simp
qed


lemma masked_whiten_finite:
  assumes "shape2 B T data" and "shape2 B T mask'" and "0 < B" and "0 < T"
    and "isum mask' \<noteq> 0"
    and "0 < wsum (\<lambda>x. (x - tsum data / real_of_int (isum mask')) ^ 2) data mask' B T
               / real_of_int (isum mask') + 1 / 10 ^ 6"
  shows "masked_whiten data mask' shift_mean =
     Inr (Finite (map (map (\<lambda>x. (x - tsum data / real_of_int (isum mask'))
            * (1 / sqrt (wsum (\<lambda>x. (x - tsum data / real_of_int (isum mask')) ^ 2) data mask' B T
                           / real_of_int (isum mask') + 1 / 10 ^ 6))
            + (if shift_mean then 0 else tsum data / real_of_int (isum mask')))) data))"
proof -
  let ?mu = "tsum data / real_of_int (isum mask')"
  let ?sq = "map (map (\<lambda>x. x ^ 2)) (map (map (\<lambda>x. x - ?mu)) data)"
  have fuse: "?sq = map (map (\<lambda>x. (x - ?mu) ^ 2)) data" by (simp add: comp_def)
  have e: "ew2 (*) ?sq (to_float mask') = Inr (zip2 (*) ?sq (to_float mask'))"
    using assms(1,2) by (intro ew2_same [of B T] map2_shape to_float_shape)
  have ts: "tsum (zip2 (*) ?sq (to_float mask')) = wsum (\<lambda>x. (x - ?mu) ^ 2) data mask' B T"
    unfolding fuse using assms(1,2) by (rule tsum_weighted)
  have ne: "concat data \<noteq> []"
    using assms(1,3,4) by (cases data) (auto simp: shape2_iff)
  show ?thesis
    unfolding masked_whiten_def Let_def e bindE_Inr ts
    using ne assms(5,6) by (auto simp: comp_def)
qed


lemma valid_mean_map:
  assumes "shape2 B T x" and "shape2 B T m"
  shows "valid_mean (map (map g) x) m = wsum g x m B T / real_of_int (isum m)"
  unfolding valid_mean_def tsum_weighted [OF assms] ..

lemma valid_var_map:
  assumes "shape2 B T x" and "shape2 B T m"
  shows "valid_var (map (map g) x) m
           = wsum (\<lambda>y. (g y - valid_mean (map (map g) x) m) ^ 2) x m B T / real_of_int (isum m)"
proof -
  have fuse: "map (map (\<lambda>y. (y - valid_mean (map (map g) x) m) ^ 2)) (map (map g) x)
          = map (map (\<lambda>y. (g y - valid_mean (map (map g) x) m) ^ 2)) x"
    by (simp add: comp_def)
  show ?thesis
    unfolding valid_var_def fuse tsum_weighted [OF assms] ..
qed

text \<open>
  C6, as stated, fails: with \<open>shift_mean=False\<close> the mean is added back. For data
  \<open>[[1, 3]]\<close> and mask \<open>[[1, 1]]\<close> the mean over the valid positions of the result is
  2, not 0.
\<close>

theorem masked_whiten_keeps_mean:
  "masked_whiten [[1, 3]] [[1, 1]] False
     = Inr (Finite [[(1 - 2) * (1 / sqrt (1 + 1 / 10 ^ 6)) + 2,
                     (3 - 2) * (1 / sqrt (1 + 1 / 10 ^ 6)) + 2]])
   \<and> valid_mean [[(1 - 2) * (1 / sqrt (1 + 1 / 10 ^ 6)) + 2,
                   (3 - 2) * (1 / sqrt (1 + 1 / 10 ^ 6)) + 2]] [[1, 1]] = 2"
  by (simp add: masked_whiten_def valid_mean_def tsum_def isum_def to_float_def ew2_def ew1_def
      bcast_def zip2_def Let_def)


lemma centred_affine:
  "(\<lambda>x. (x - m) * c) = (\<lambda>x. c * x + (- (m * c)) * 1)" for m c :: real
  by (rule ext) (simp add: algebra_simps)

lemma centred_square:
  "(\<lambda>x. ((x - m) * c) ^ 2) = (\<lambda>x. c ^ 2 * (x - m) ^ 2 + 0 * 1)" for m c :: real
  by (rule ext) (simp add: power_mult_distrib mult.commute)

lemma centred_shift:
  "(\<lambda>x. (x - m) * c + m) = (\<lambda>x. 1 * ((x - m) * c) + m * 1)" for m c :: real
  by (rule ext) simp

text \<open>
  C6, amended. For every data tensor that is zero outside the mask and every 0/1 mask of
  the same shape with at least 2 valid positions, the output of \<open>masked_whiten\<close> with
  \<open>shift_mean=True\<close> (the default) has mean exactly 0 over the valid positions and
  variance \<open>var / (var + 1e-6)\<close> over the valid positions, where \<open>var\<close> is the variance
  of the data over the valid positions; with \<open>shift_mean=False\<close> the mean is added
  back, and the mean of the output over the valid positions is the mean of the data.
\<close>

theorem masked_whiten_spec:
  assumes "shape2 B T data" and "shape2 B T mask'"
    and "\<forall>i<B. \<forall>t<T. mask' ! i ! t = 0 \<or> mask' ! i ! t = 1"
    and "\<forall>i<B. \<forall>t<T. mask' ! i ! t = 0 \<longrightarrow> data ! i ! t = 0"
    and "2 \<le> isum mask'"
  shows "\<exists>w w'. masked_whiten data mask' True = Inr (Finite w)
           \<and> valid_mean w mask' = 0
           \<and> valid_var w mask' = valid_var data mask' / (valid_var data mask' + 1 / 10 ^ 6)
           \<and> masked_whiten data mask' False = Inr (Finite w')
           \<and> valid_mean w' mask' = valid_mean data mask'"
proof -
  define N where "N = real_of_int (isum mask')"
  define mu where "mu = tsum data / N"
  define V where "V = wsum (\<lambda>x. (x - mu) ^ 2) data mask' B T / N"
  define c where "c = 1 / sqrt (V + 1 / 10 ^ 6)"
  have N: "2 \<le> N" using assms(5) by (simp add: N_def)
  then have Npos: "0 < N" and Nne: "N \<noteq> 0" by auto
  have ine: "isum mask' \<noteq> 0" using assms(5) by simp
  have Nsum: "N = (\<Sum>i<B. \<Sum>t<T. real_of_int (mask' ! i ! t))"
    unfolding N_def using assms(2) by (rule isum_nth)
  have B: "0 < B"
  proof (rule ccontr)
    assume "\<not> 0 < B"
    then have "N = 0" unfolding Nsum by simp
    with Nne show False by simp
  qed
  have T: "0 < T"
  proof (rule ccontr)
    assume "\<not> 0 < T"
    then have "N = 0" unfolding Nsum by simp
    with Nne show False by simp
  qed
  have mnn: "\<forall>i<B. \<forall>t<T. 0 \<le> mask' ! i ! t"
    using assms(3) by (metis order_refl zero_le_one)
  have "0 \<le> wsum (\<lambda>x. (x - mu) ^ 2) data mask' B T"
    using mnn by (rule wsum_nonneg) simp
  then have Vnn: "0 \<le> V" using Npos by (simp add: V_def)
  then have Vpos: "0 < V + 1 / 10 ^ 6" by simp
  have c2: "c ^ 2 = 1 / (V + 1 / 10 ^ 6)"
    using Vpos by (simp add: c_def power_divide)
  \<comment> \<open>the data\<close>
  have "wsum (\<lambda>x. x) data mask' B T = tsum data"
    using assms(1,3,4) by (rule wsum_zero_outside)
  then have Wid: "wsum (\<lambda>x. x) data mask' B T = mu * N"
    using Nne by (simp add: mu_def)
  have W1: "wsum (\<lambda>x. 1) data mask' B T = N"
    unfolding N_def using assms(2) by (rule wsum_one)
  have md: "valid_mean data mask' = mu"
    unfolding valid_mean_def tsum_weighted_id [OF assms(1,2)] Wid N_def [symmetric]
    using Nne by simp
  have "valid_var (map (map (\<lambda>x. x)) data) mask'
          = wsum (\<lambda>y. (y - valid_mean (map (map (\<lambda>x. x)) data) mask') ^ 2) data mask' B T
              / real_of_int (isum mask')"
    using assms(1,2) by (rule valid_var_map)
  then have vd: "valid_var data mask' = V"
    using md by (simp add: V_def N_def)
  \<comment> \<open>the whitened tensors\<close>
  have r: "masked_whiten data mask' True
             = Inr (Finite (map (map (\<lambda>x. (x - mu) * c + (if True then 0 else mu))) data))"
    unfolding c_def V_def mu_def N_def
    using assms(1,2) B T ine Vpos [unfolded V_def mu_def N_def] by (rule masked_whiten_finite)
  have r': "masked_whiten data mask' False
             = Inr (Finite (map (map (\<lambda>x. (x - mu) * c + (if False then 0 else mu))) data))"
    unfolding c_def V_def mu_def N_def
    using assms(1,2) B T ine Vpos [unfolded V_def mu_def N_def] by (rule masked_whiten_finite)
  have "wsum (\<lambda>x. c * x + (- (mu * c)) * 1) data mask' B T = c * (mu * N) + (- (mu * c)) * N"
    unfolding wsum_lin Wid W1 ..
  then have Wc: "wsum (\<lambda>x. (x - mu) * c) data mask' B T = 0"
    unfolding centred_affine [symmetric] by (simp add: algebra_simps)
  have "valid_mean (map (map (\<lambda>x. (x - mu) * c)) data) mask'
          = wsum (\<lambda>x. (x - mu) * c) data mask' B T / real_of_int (isum mask')"
    using assms(1,2) by (rule valid_mean_map)
  then have mw: "valid_mean (map (map (\<lambda>x. (x - mu) * c)) data) mask' = 0"
    unfolding Wc by simp
  have "wsum (\<lambda>x. c ^ 2 * (x - mu) ^ 2 + 0 * 1) data mask' B T
          = c ^ 2 * wsum (\<lambda>x. (x - mu) ^ 2) data mask' B T + 0 * N"
    unfolding wsum_lin W1 ..
  then have Wsq: "wsum (\<lambda>x. ((x - mu) * c) ^ 2) data mask' B T
                    = c ^ 2 * wsum (\<lambda>x. (x - mu) ^ 2) data mask' B T"
    unfolding centred_square [symmetric] by simp
  have "valid_var (map (map (\<lambda>x. (x - mu) * c)) data) mask'
          = wsum (\<lambda>y. ((y - mu) * c
                        - valid_mean (map (map (\<lambda>x. (x - mu) * c)) data) mask') ^ 2)
              data mask' B T / real_of_int (isum mask')"
    using assms(1,2) by (rule valid_var_map)
  then have "valid_var (map (map (\<lambda>x. (x - mu) * c)) data) mask'
               = c ^ 2 * wsum (\<lambda>x. (x - mu) ^ 2) data mask' B T / N"
    unfolding mw N_def [symmetric] by (simp add: Wsq)
  then have vw: "valid_var (map (map (\<lambda>x. (x - mu) * c)) data) mask' = V / (V + 1 / 10 ^ 6)"
    unfolding c2 by (simp add: V_def)
  have "wsum (\<lambda>x. 1 * ((x - mu) * c) + mu * 1) data mask' B T = 1 * 0 + mu * N"
    unfolding wsum_lin Wc W1 ..
  then have Wsh: "wsum (\<lambda>x. (x - mu) * c + mu) data mask' B T = mu * N"
    unfolding centred_shift [symmetric] by simp
  have "valid_mean (map (map (\<lambda>x. (x - mu) * c + mu)) data) mask'
          = wsum (\<lambda>x. (x - mu) * c + mu) data mask' B T / real_of_int (isum mask')"
    using assms(1,2) by (rule valid_mean_map)
  then have mw': "valid_mean (map (map (\<lambda>x. (x - mu) * c + mu)) data) mask' = mu"
    unfolding Wsh N_def [symmetric] using Nne by simp
  from r r' mw vw mw' show ?thesis unfolding md vd by simp
qed


theorem masked_whiten_spec_witness:
  "\<exists>w w'. masked_whiten [[0, 1, 3]] [[0, 1, 1]] True = Inr (Finite w)
     \<and> valid_mean w [[0, 1, 1]] = 0
     \<and> valid_var w [[0, 1, 1]] = 1 / (1 + 1 / 10 ^ 6)
     \<and> masked_whiten [[0, 1, 3]] [[0, 1, 1]] False = Inr (Finite w')
     \<and> valid_mean w' [[0, 1, 1]] = 2"
proof -
  let ?D = "[[0, 1, 3]] :: real list list"
  let ?M = "[[0, 1, 1]] :: int list list"
  have sh: "shape2 1 3 ?D" "shape2 1 3 ?M" by (simp_all add: shape2_def)
  have pos: "t = 0 \<or> t = 1 \<or> t = 2" if "t < 3" for t :: nat using that by arith
  have bin: "\<forall>i<1. \<forall>t<3. ?M ! i ! t = 0 \<or> ?M ! i ! t = 1"
  proof (intro allI impI)
    fix i t :: nat assume "i < 1" "t < 3"
    then have "i = 0" and "t = 0 \<or> t = 1 \<or> t = 2" using pos by auto
    then show "?M ! i ! t = 0 \<or> ?M ! i ! t = 1" by (elim disjE) simp_all
  qed
  have out: "\<forall>i<1. \<forall>t<3. ?M ! i ! t = 0 \<longrightarrow> ?D ! i ! t = 0"
  proof (intro allI impI)
    fix i t :: nat assume "i < 1" "t < 3" and z: "?M ! i ! t = 0"
    then have "i = 0" and "t = 0 \<or> t = 1 \<or> t = 2" using pos by auto
    with z show "?D ! i ! t = 0" by (elim disjE) simp_all
  qed
  have two: "2 \<le> isum ?M" by (simp add: isum_def)
  have m: "valid_mean ?D ?M = 2"
    by (simp add: valid_mean_def tsum_def isum_def to_float_def zip2_def)
  have v: "valid_var ?D ?M = 1"
    unfolding valid_var_def m by (simp add: tsum_def isum_def to_float_def zip2_def)
  from masked_whiten_spec [OF sh bin out two] show ?thesis
    unfolding m v .
qed

text \<open>
  The mean that \<open>masked_whiten\<close> subtracts is \<open>data.sum() / mask.sum()\<close>: entries
  outside the mask are summed too. For data \<open>[[10, 1, 3]]\<close> and mask \<open>[[0, 1, 1]]\<close> the
  mean subtracted is 7, not 2, and the result does not have mean 0 over the valid
  positions.
\<close>

lemma masked_whiten_sums_all_entries:
  "masked_whiten [[10, 1, 3]] [[0, 1, 1]] True
     = Inr (Finite [[(10 - 7) * (1 / sqrt (26 + 1 / 10 ^ 6)),
                     (1 - 7) * (1 / sqrt (26 + 1 / 10 ^ 6)),
                     (3 - 7) * (1 / sqrt (26 + 1 / 10 ^ 6))]])
   \<and> valid_mean [[(10 - 7) * (1 / sqrt (26 + 1 / 10 ^ 6)),
                   (1 - 7) * (1 / sqrt (26 + 1 / 10 ^ 6)),
                   (3 - 7) * (1 / sqrt (26 + 1 / 10 ^ 6))]] [[0, 1, 1]]
       = - 5 * (1 / sqrt (26 + 1 / 10 ^ 6))"
  by (simp add: masked_whiten_def valid_mean_def tsum_def isum_def to_float_def ew2_def ew1_def
      bcast_def zip2_def Let_def)

subsection \<open>Switching the value head and the adapters\<close>

text \<open>
  C3, as stated, fails: when the forward pass under the reward head raises, nothing
  loads the critic's weights back. The value head had weights \<open>(10, 11)\<close> before the
  call and has the reward head's weights \<open>(20, 21)\<close> after it, in both functions, also
  when the context manager re-enables the adapter layers.
\<close>

theorem head_not_restored_on_raise:
  "head_weights example_models = (10, 11)
   \<and> fst (get_model_output reward_pass_raises True example_models) = Inl ForwardError
   \<and> head_weights (snd (get_model_output reward_pass_raises True example_models)) = (20, 21)
   \<and> fst (get_co_model_output reward_pass_raises True False example_models) = Inl ForwardError
   \<and> head_weights (snd (get_co_model_output reward_pass_raises True False example_models))
       = (20, 21)"
  by (simp add: get_model_output_def get_co_model_output_def disable_adapter_def
      reward_forward_def load_state_dict_def head_weights_def example_models_def
      reward_pass_raises_def Let_def)


lemma swapped_fields [simp]:
  "critic_adapter_enabled (swapped s) = critic_adapter_enabled s"
  "actor_adapter_enabled (swapped s) = actor_adapter_enabled s"
  "active_adapter (swapped s) = active_adapter s"
  "v_head_weight (swapped s) = v_head_weight s"
  "v_head_bias (swapped s) = v_head_bias s"
  "critic_head_weight (swapped s) = v_head_weight s"
  "critic_head_bias (swapped s) = v_head_bias s"
  by (simp_all add: swapped_def load_state_dict_def Let_def)

lemma swapped_flag_update [simp]:
  "swapped (s\<lparr>critic_adapter_enabled := b\<rparr>) = (swapped s)\<lparr>critic_adapter_enabled := b\<rparr>"
  "swapped (s\<lparr>actor_adapter_enabled := b\<rparr>) = (swapped s)\<lparr>actor_adapter_enabled := b\<rparr>"
  "swapped (s\<lparr>active_adapter := n\<rparr>) = (swapped s)\<lparr>active_adapter := n\<rparr>"
  by (simp_all add: swapped_def load_state_dict_def Let_def)

lemma head_weights_flag_update [simp]:
  "head_weights (s\<lparr>critic_adapter_enabled := b\<rparr>) = head_weights s"
  "head_weights (s\<lparr>actor_adapter_enabled := b\<rparr>) = head_weights s"
  "head_weights (s\<lparr>active_adapter := n\<rparr>) = head_weights s"
  by (simp_all add: head_weights_def)

lemma head_weights_swapped:
  assumes "v_head_weight s \<noteq> v_head_bias s" and "reward_head_bias s \<noteq> v_head_weight s"
  shows "head_weights (swapped s) = (storage s (reward_head_weight s), storage s (reward_head_bias s))"
  using assms by (simp add: head_weights_def swapped_def load_state_dict_def Let_def)

text \<open>
  Loading the tensors that \<open>critic_head_weight\<close> and \<open>critic_head_bias\<close> are bound to
  changes nothing: they share the storage of the parameters they are copied into.
\<close>

lemma load_back_is_identity:
  "load_state_dict (swapped s) (critic_head_weight (swapped s)) (critic_head_bias (swapped s))
     = swapped s"
  by (simp add: load_state_dict_def Let_def)

lemma reward_forward_eq:
  "reward_forward fwd s =
     (case fwd Reward (swapped s) of
        Inl e \<Rightarrow> (Inl e, swapped s)
      | Inr ref_values \<Rightarrow> (Inr ref_values, swapped s))"
proof -
  have s2: "load_state_dict
              (s\<lparr>critic_head_weight := v_head_weight s, critic_head_bias := v_head_bias s\<rparr>)
              (reward_head_weight
                 (s\<lparr>critic_head_weight := v_head_weight s, critic_head_bias := v_head_bias s\<rparr>))
              (reward_head_bias
                 (s\<lparr>critic_head_weight := v_head_weight s, critic_head_bias := v_head_bias s\<rparr>))
            = swapped s"
    by (simp add: swapped_def)
  show ?thesis
    unfolding reward_forward_def Let_def s2 load_back_is_identity by (rule refl)
qed


lemma get_model_output_returns:
  assumes "\<And>c st. fwd c st = Inr (g c st)"
  shows "\<exists>out s'. get_model_output fwd on_raise s = (Inr out, s')
           \<and> critic_adapter_enabled s' \<and> actor_adapter_enabled s'
           \<and> active_adapter s' = active_adapter s
           \<and> head_weights s' = head_weights (swapped s)"
  by (simp add: get_model_output_def disable_adapter_def reward_forward_eq assms)

lemma get_co_model_output_returns:
  assumes "\<And>c st. fwd c st = Inr (g c st)" and "active_adapter s = ''default''"
  shows "\<exists>out s'. get_co_model_output fwd on_raise use_multi_adapters s = (Inr out, s')
           \<and> critic_adapter_enabled s'
           \<and> active_adapter s' = ''default''
           \<and> head_weights s' = head_weights (swapped s)"
  by (simp add: get_co_model_output_def disable_adapter_def reward_forward_eq assms Let_def)

lemma get_model_output_raises:
  assumes "\<And>st. fwd Reward st = Inl e" and "\<And>c st. c \<noteq> Reward \<Longrightarrow> fwd c st = Inr (g c st)"
  shows "\<exists>s'. get_model_output fwd on_raise s = (Inl e, s')
           \<and> head_weights s' = head_weights (swapped s)
           \<and> (on_raise \<longrightarrow> critic_adapter_enabled s')
           \<and> actor_adapter_enabled s'
           \<and> active_adapter s' = active_adapter s"
  by (simp add: get_model_output_def disable_adapter_def reward_forward_eq assms)

lemma get_co_model_output_raises:
  assumes "\<And>st. fwd Reward st = Inl e" and "\<And>c st. c \<noteq> Reward \<Longrightarrow> fwd c st = Inr (g c st)"
    and "active_adapter s = ''default''"
  shows "\<exists>s'. get_co_model_output fwd on_raise use_multi_adapters s = (Inl e, s')
           \<and> head_weights s' = head_weights (swapped s)
           \<and> (on_raise \<longrightarrow> critic_adapter_enabled s')
           \<and> active_adapter s' = ''default''"
  by (simp add: get_co_model_output_def disable_adapter_def reward_forward_eq assms Let_def)

lemma get_co_model_output_critic_pass_raises:
  assumes "fwd ActorCritic s = Inr out" and "fwd CriticAdapter (s\<lparr>active_adapter := ''critic''\<rparr>) = Inl e"
  shows "get_co_model_output fwd on_raise True s = (Inl e, s\<lparr>active_adapter := ''critic''\<rparr>)"
  by (simp add: get_co_model_output_def assms Let_def)


text \<open>
  C3, amended. For a state with distinct tensors for the value head and the reward head,
  the adapter layers enabled and the adapter \<open>default\<close> active: when every forward pass
  returns, \<open>get_model_output\<close> and \<open>get_co_model_output\<close> return with the adapter
  configuration as it was before the call; when the forward pass under the reward head
  raises and the others return, the exception propagates and the value head is left
  holding the reward head's weights, and the adapter layers are enabled again on that
  path if the library's context manager enables them when its body raises.
\<close>

theorem adapters_restored_head_left:
  assumes "v_head_weight s \<noteq> v_head_bias s" and "reward_head_bias s \<noteq> v_head_weight s"
    and "critic_adapter_enabled s" and "actor_adapter_enabled s"
    and "active_adapter s = ''default''"
  shows
    "((\<forall>c st. \<exists>out. fwd c st = Inr out) \<longrightarrow>
        (\<exists>out s'. get_model_output fwd on_raise s = (Inr out, s')
           \<and> critic_adapter_enabled s' = critic_adapter_enabled s
           \<and> actor_adapter_enabled s' = actor_adapter_enabled s
           \<and> active_adapter s' = active_adapter s)
      \<and> (\<exists>out s'. get_co_model_output fwd on_raise use_multi_adapters s = (Inr out, s')
           \<and> critic_adapter_enabled s' = critic_adapter_enabled s
           \<and> active_adapter s' = active_adapter s))
   \<and> ((\<forall>st. fwd Reward st = Inl e) \<and> (\<forall>c st. c \<noteq> Reward \<longrightarrow> (\<exists>out. fwd c st = Inr out)) \<longrightarrow>
        (\<exists>s'. get_model_output fwd on_raise s = (Inl e, s')
           \<and> head_weights s' = (storage s (reward_head_weight s), storage s (reward_head_bias s))
           \<and> (on_raise \<longrightarrow> critic_adapter_enabled s' \<and> actor_adapter_enabled s'))
      \<and> (\<exists>s'. get_co_model_output fwd on_raise use_multi_adapters s = (Inl e, s')
           \<and> head_weights s' = (storage s (reward_head_weight s), storage s (reward_head_bias s))
           \<and> (on_raise \<longrightarrow> critic_adapter_enabled s')))"
proof (intro conjI impI)
  assume "\<forall>c st. \<exists>out. fwd c st = Inr out"
  then obtain g where g: "\<And>c st. fwd c st = Inr (g c st)" by metis
  from get_model_output_returns [of fwd g on_raise s, OF g] assms(3,4)
  show "\<exists>out s'. get_model_output fwd on_raise s = (Inr out, s')
           \<and> critic_adapter_enabled s' = critic_adapter_enabled s
           \<and> actor_adapter_enabled s' = actor_adapter_enabled s
           \<and> active_adapter s' = active_adapter s"
    by auto
  from get_co_model_output_returns [of fwd g s on_raise use_multi_adapters, OF g assms(5)]
    assms(3,5)
  show "\<exists>out s'. get_co_model_output fwd on_raise use_multi_adapters s = (Inr out, s')
           \<and> critic_adapter_enabled s' = critic_adapter_enabled s
           \<and> active_adapter s' = active_adapter s"
    by auto
next
  assume a: "(\<forall>st. fwd Reward st = Inl e)
               \<and> (\<forall>c st. c \<noteq> Reward \<longrightarrow> (\<exists>out. fwd c st = Inr out))"
  then have r: "\<And>st. fwd Reward st = Inl e" by blast
  from a obtain g where g: "\<And>c st. c \<noteq> Reward \<Longrightarrow> fwd c st = Inr (g c st)" by metis
  note hw = head_weights_swapped [OF assms(1,2)]
  from get_model_output_raises [of fwd e g on_raise s, OF r g]
  show "\<exists>s'. get_model_output fwd on_raise s = (Inl e, s')
           \<and> head_weights s' = (storage s (reward_head_weight s), storage s (reward_head_bias s))
           \<and> (on_raise \<longrightarrow> critic_adapter_enabled s' \<and> actor_adapter_enabled s')"
    unfolding hw by auto
  from get_co_model_output_raises [of fwd e g s on_raise use_multi_adapters, OF r g assms(5)]
  show "\<exists>s'. get_co_model_output fwd on_raise use_multi_adapters s = (Inl e, s')
           \<and> head_weights s' = (storage s (reward_head_weight s), storage s (reward_head_bias s))
           \<and> (on_raise \<longrightarrow> critic_adapter_enabled s')"
    unfolding hw by auto
qed

theorem adapters_restored_head_left_witness:
  "(\<exists>out s'. get_model_output all_passes_return False example_models = (Inr out, s')
        \<and> critic_adapter_enabled s' \<and> actor_adapter_enabled s'
        \<and> active_adapter s' = ''default'')
   \<and> (\<exists>s'. get_co_model_output reward_pass_raises True True example_models
               = (Inl ForwardError, s')
        \<and> head_weights s' = (20, 21) \<and> critic_adapter_enabled s')"
proof -
  have wf: "v_head_weight example_models \<noteq> v_head_bias example_models"
    "reward_head_bias example_models \<noteq> v_head_weight example_models"
    "critic_adapter_enabled example_models" "actor_adapter_enabled example_models"
    "active_adapter example_models = ''default''"
    by (simp_all add: example_models_def)
  have ret: "\<forall>c st. \<exists>out. all_passes_return c st = Inr out"
    by (simp add: all_passes_return_def)
  have rs: "(\<forall>st. reward_pass_raises Reward st = Inl ForwardError)
              \<and> (\<forall>c st. c \<noteq> Reward \<longrightarrow> (\<exists>out. reward_pass_raises c st = Inr out))"
    by (simp add: reward_pass_raises_def)
  from adapters_restored_head_left [OF wf, of all_passes_return False True ForwardError] ret
  have 1: "\<exists>out s'. get_model_output all_passes_return False example_models = (Inr out, s')
        \<and> critic_adapter_enabled s' \<and> actor_adapter_enabled s'
        \<and> active_adapter s' = ''default''"
    using wf(3,4,5) by auto
  from adapters_restored_head_left [OF wf, of reward_pass_raises True True ForwardError] rs
  have 2: "\<exists>s'. get_co_model_output reward_pass_raises True True example_models
               = (Inl ForwardError, s')
        \<and> head_weights s' = (20, 21) \<and> critic_adapter_enabled s'"
    by (auto simp: example_models_def)
  from 1 2 show ?thesis ..
qed

text \<open>
  What the model says about the paths that the amended claim leaves open. On return the
  value head holds the reward head's weights as well: the buffers \<open>critic_head_*\<close> were
  bound to tensors sharing the storage of the parameters, so after the reward head is
  loaded they hold the reward head's weights, and loading them back changes nothing.
  And when the pass under the \<open>critic\<close> adapter raises in \<open>get_co_model_output\<close>, the
  \<open>critic\<close> adapter stays active.
\<close>

lemma head_after_return:
  assumes "v_head_weight s \<noteq> v_head_bias s" and "reward_head_bias s \<noteq> v_head_weight s"
    and "\<And>c st. fwd c st = Inr (g c st)"
  shows "head_weights (snd (get_model_output fwd on_raise s))
           = (storage s (reward_head_weight s), storage s (reward_head_bias s))"
  using get_model_output_returns [of fwd g on_raise s, OF assms(3)]
    head_weights_swapped [OF assms(1,2)]
  by auto

lemma head_after_return_example:
  "head_weights (snd (get_model_output all_passes_return True example_models)) = (20, 21)"
  using head_after_return [of example_models all_passes_return "\<lambda>c st. ()" True]
  by (simp add: example_models_def all_passes_return_def)

end
